theory Spec2Isabelle
  imports Main "HOL-Library.AList" "HOL-Library.Sublist" "HOL-Library.Multiset"
    "HOL-Library.Product_Lexorder" "HOL-Library.List_Lexorder" "HOL-Library.Char_ord"
begin

section \<open>Strings\<close>

text \<open>
  A JavaScript string is a sequence of code units. It is modelled as a \<open>string\<close>, each
  \<open>char\<close> standing for one code unit below 256; every character the server inspects
  (\<open>/\<close>, the backslash, \<open>.\<close>, NUL, the ASCII digits) lies in that range.
  \<open>startsWith\<close> is \<open>prefix\<close>, \<open>endsWith\<close> is \<open>suffix\<close>, \<open>slice(1)\<close> is \<open>tl\<close>.
\<close>

abbreviation backslash :: char where
  "backslash \<equiv> CHR 0x5C"

abbreviation slash :: char where
  "slash \<equiv> CHR ''/''"

text \<open>The white space and line terminators that \<open>String.prototype.trim\<close> removes, below 256:
  TAB, LF, VT, FF, CR, SP and NBSP.\<close>

definition isWhiteSpace :: "char \<Rightarrow> bool" where
  "isWhiteSpace c = (of_char c \<in> {9, 10, 11, 12, 13, 32, 160 :: nat})"

definition trim :: "string \<Rightarrow> string" where
  "trim s = rev (dropWhile isWhiteSpace (rev (dropWhile isWhiteSpace s)))"

text \<open>\<open>s.replace(/\\/g, "/")\<close>\<close>

definition replaceBackslashes :: "string \<Rightarrow> string" where
  "replaceBackslashes s = map (\<lambda>c. if c = backslash then slash else c) s"

text \<open>\<open>s.replace(/\0/g, "")\<close>\<close>

definition stripNul :: "string \<Rightarrow> string" where
  "stripNul s = filter (\<lambda>c. c \<noteq> CHR 0x00) s"

text \<open>\<open>s.split(c)\<close>: the pieces between the occurrences of \<open>c\<close>; never the empty list.\<close>

fun splitOn :: "char \<Rightarrow> string \<Rightarrow> string list" where
  "splitOn c [] = [[]]"
| "splitOn c (x # xs) =
     (case splitOn c xs of
        [] \<Rightarrow> [[x]]
      | s # ss \<Rightarrow> if x = c then [] # s # ss else (x # s) # ss)"

text \<open>\<open>segs.join(c)\<close>\<close>

fun joinWith :: "char \<Rightarrow> string list \<Rightarrow> string" where
  "joinWith c [] = []"
| "joinWith c [s] = s"
| "joinWith c (s # t # ss) = s @ c # joinWith c (t # ss)"

text \<open>The decimal rendering of a non-negative integer in a template literal.\<close>

definition digitChar :: "nat \<Rightarrow> char" where
  "digitChar d = char_of (48 + d)"

function showNat :: "nat \<Rightarrow> string" where
  "showNat n = (if n < 10 then [digitChar n] else showNat (n div 10) @ [digitChar (n mod 10)])"
  by pat_completeness auto
termination
  by (relation "measure id") auto

declare showNat.simps [simp del]

definition isDigit :: "char \<Rightarrow> bool" where
  "isDigit c = (48 \<le> (of_char c :: nat) \<and> (of_char c :: nat) \<le> 57)"

definition digitVal :: "char \<Rightarrow> nat" where
  "digitVal c = of_char c - 48"

definition readDigits :: "string \<Rightarrow> nat" where
  "readDigits s = foldl (\<lambda>a c. 10 * a + digitVal c) 0 s"

section \<open>POSIX path functions of the runtime\<close>

text \<open>
  The server calls \<open>path.posix.normalize\<close>, \<open>path.join\<close>, \<open>path.resolve\<close>,
  \<open>path.posix.dirname\<close> and \<open>path.posix.basename\<close> of the runtime's \<open>path\<close> module (on a POSIX
  host, \<open>path.sep\<close> is \<open>/\<close>). The module's \<open>normalizeString\<close> scans the path once, keeping
  the segments seen so far: an empty segment and \<open>.\<close> are dropped, \<open>..\<close> removes the last kept
  segment unless there is none or it is itself \<open>..\<close>, in which case \<open>..\<close> is kept only when the
  path may climb above its start; any other segment is kept.
\<close>

definition normStep :: "bool \<Rightarrow> string list \<Rightarrow> string \<Rightarrow> string list" where
  "normStep allowAboveRoot res seg =
     (if seg = [] \<or> seg = ''.'' then res
      else if seg = ''..'' then
        (if res \<noteq> [] \<and> last res \<noteq> ''..'' then butlast res
         else if allowAboveRoot then res @ [''..''] else res)
      else res @ [seg])"

definition normSegs :: "bool \<Rightarrow> string list \<Rightarrow> string list" where
  "normSegs allowAboveRoot segs = foldl (normStep allowAboveRoot) [] segs"

definition normalizeString :: "string \<Rightarrow> bool \<Rightarrow> string" where
  "normalizeString p allowAboveRoot = joinWith slash (normSegs allowAboveRoot (splitOn slash p))"

definition posix_normalize :: "string \<Rightarrow> string" where
  "posix_normalize p =
     (if p = [] then ''.''
      else
        let isAbsolute = (hd p = slash);
            trailingSeparator = (last p = slash);
            q = normalizeString p (\<not> isAbsolute)
        in if q = [] then (if isAbsolute then ''/'' else if trailingSeparator then ''./'' else ''.'')
           else (if isAbsolute then ''/'' else []) @ q @ (if trailingSeparator then ''/'' else []))"

text \<open>\<open>path.join(...args)\<close>: the non-empty arguments joined by \<open>/\<close>, then normalized.\<close>

definition posix_join :: "string list \<Rightarrow> string" where
  "posix_join args =
     (let parts = filter (\<lambda>a. a \<noteq> []) args
      in if parts = [] then ''.'' else posix_normalize (joinWith slash parts))"

text \<open>\<open>path.resolve(...args)\<close>: arguments are prepended from the right until an absolute one
  is met, the working directory \<open>cwd\<close> being the last resort.\<close>

fun resolveLoop :: "string list \<Rightarrow> string \<Rightarrow> string \<times> bool" where
  "resolveLoop [] resolvedPath = (resolvedPath, False)"
| "resolveLoop (p # ps) resolvedPath =
     (if p = [] then resolveLoop ps resolvedPath
      else if hd p = slash then (p @ ''/'' @ resolvedPath, True)
      else resolveLoop ps (p @ ''/'' @ resolvedPath))"

definition posix_resolve :: "string \<Rightarrow> string list \<Rightarrow> string" where
  "posix_resolve cwd args =
     (let (resolvedPath, resolvedAbsolute) = resolveLoop (rev (cwd # args)) [];
          q = normalizeString resolvedPath (\<not> resolvedAbsolute)
      in if resolvedAbsolute then ''/'' @ q else if q \<noteq> [] then q else ''.'')"

text \<open>\<open>path.posix.dirname\<close>: index 0 is never scanned; trailing separators are skipped, then
  the last segment, and the path is cut at the separator before it.\<close>

definition posix_dirname :: "string \<Rightarrow> string" where
  "posix_dirname p =
     (if p = [] then ''.''
      else
        let hasRoot = (hd p = slash);
            r = dropWhile (\<lambda>c. c \<noteq> slash) (dropWhile (\<lambda>c. c = slash) (rev (tl p)))
        in if r = [] then (if hasRoot then ''/'' else ''.'')
           else if hasRoot \<and> length r = 1 then ''//''
           else take (length r) p)"

text \<open>\<open>path.posix.basename\<close> without a suffix: trailing separators are skipped and the last
  segment is returned.\<close>

definition posix_basename :: "string \<Rightarrow> string" where
  "posix_basename p = rev (takeWhile (\<lambda>c. c \<noteq> slash) (dropWhile (\<lambda>c. c = slash) (rev p)))"

section \<open>Path normalizer and name sanitizer\<close>

text \<open>The first half of \<open>normalizeRequestPath\<close>: the trimmed input (\<open>/\<close> when absent or
  blank) with backslashes turned into slashes and a leading slash ensured.\<close>

definition requestRaw :: "string option \<Rightarrow> string" where
  "requestRaw input =
     (let raw0 = trim (case input of None \<Rightarrow> ''/'' | Some s \<Rightarrow> s);
          raw1 = (if raw0 = [] then ''/'' else raw0);
          raw2 = replaceBackslashes raw1
      in if prefix ''/'' raw2 then raw2 else ''/'' @ raw2)"

definition normalizeRequestPath :: "string option \<Rightarrow> string" where
  "normalizeRequestPath input =
     (let normalized = posix_normalize (requestRaw input)
      in if \<not> prefix ''/'' normalized then ''/'' else normalized)"

definition sanitizeName :: "string \<Rightarrow> string option" where
  "sanitizeName v =
     (let trimmed = stripNul (trim v)
      in if trimmed = [] then None
         else if slash \<in> set trimmed \<or> backslash \<in> set trimmed then None
         else if trimmed = ''.'' \<or> trimmed = ''..'' then None
         else Some trimmed)"

section \<open>Root confinement resolver\<close>

text \<open>
  What the handlers take from the operating system: the working directory of the process and
  \<open>fs.realpath\<close>, which follows symbolic links and fails (\<open>None\<close>) when the path cannot be
  resolved; \<open>UPLOAD_TMP_DIR\<close> is \<open>path.join(os.tmpdir(), "bro-fm-uploads")\<close>.
\<close>

record env =
  cwd :: string
  realpath :: "string \<Rightarrow> string option"
  uploadTmpDir :: string

datatype resolve_error = PathNotAllowed | RealpathFailed | PathEscapesRoot

record resolved =
  normalized :: string
  fullPath :: string

definition isWithinRoot :: "string \<Rightarrow> string \<Rightarrow> bool" where
  "isWithinRoot candidate rootReal =
     (if candidate = rootReal then True
      else
        let rootWithSep = (if suffix ''/'' rootReal then rootReal else rootReal @ ''/'')
        in prefix rootWithSep candidate)"

definition resolveSafePath :: "env \<Rightarrow> string \<Rightarrow> string \<Rightarrow> resolve_error + resolved" where
  "resolveSafePath e requestPath rootReal =
     (let normalized = normalizeRequestPath (Some requestPath)
      in if normalized = ''/.trash'' \<or> prefix ''/.trash/'' normalized then Inl PathNotAllowed
         else
           let joined = posix_resolve (cwd e) [rootReal, ''.'' @ normalized]
           in case realpath e joined of
                None \<Rightarrow> Inl RealpathFailed
              | Some real \<Rightarrow>
                  if \<not> isWithinRoot real rootReal then Inl PathEscapesRoot
                  else Inr \<lparr>normalized = normalized, fullPath = real\<rparr>)"

text \<open>\<open>resolveDestinationPath\<close> returns \<open>null\<close> (\<open>Inr None\<close>) for an invalid destination and lets
  the exception of the inner \<open>resolveSafePath\<close> escape (\<open>Inl\<close>).\<close>

definition resolveDestinationPath ::
  "env \<Rightarrow> string \<Rightarrow> string \<Rightarrow> resolve_error + resolved option" where
  "resolveDestinationPath e target rootReal =
     (let normalized = normalizeRequestPath (Some target)
      in if normalized = ''/'' \<or> prefix ''/.trash'' normalized then Inr None
         else
           let parentNormalized = posix_dirname normalized
           in case sanitizeName (posix_basename normalized) of
                None \<Rightarrow> Inr None
              | Some name \<Rightarrow>
                  (case resolveSafePath e parentNormalized rootReal of
                     Inl err \<Rightarrow> Inl err
                   | Inr parent \<Rightarrow>
                       Inr (Some \<lparr>normalized = normalized,
                                  fullPath = posix_join [fullPath parent, name]\<rparr>)))"

definition getTrashPaths :: "string \<Rightarrow> string \<times> string" where
  "getTrashPaths rootReal =
     (let trashDir = posix_join [rootReal, ''.trash''];
          metaDir = posix_join [trashDir, ''.meta'']
      in (trashDir, metaDir))"

subsection \<open>S3 mode\<close>

record s3resolved =
  s3normalized :: string
  rootPrefix :: string

definition resolveSafeS3Path :: "string \<Rightarrow> string \<Rightarrow> resolve_error + s3resolved" where
  "resolveSafeS3Path requestPath rootPfx =
     (let normalized = normalizeRequestPath (Some requestPath)
      in if normalized = ''/.trash'' \<or> prefix ''/.trash/'' normalized then Inl PathNotAllowed
         else Inr \<lparr>s3normalized = normalized, rootPrefix = rootPfx\<rparr>)"

definition toS3Key :: "string \<Rightarrow> string \<Rightarrow> string" where
  "toS3Key rootPfx normalizedPath =
     (if normalizedPath = ''/'' then rootPfx else rootPfx @ tl normalizedPath)"

text \<open>\<open>normalizedPath.replace(/\/+$/, "")\<close> removes the trailing slashes.\<close>

definition stripTrailingSlashes :: "string \<Rightarrow> string" where
  "stripTrailingSlashes s = rev (dropWhile (\<lambda>c. c = slash) (rev s))"

definition toS3Prefix :: "string \<Rightarrow> string \<Rightarrow> string" where
  "toS3Prefix rootPfx normalizedPath =
     (if normalizedPath = ''/'' then rootPfx
      else rootPfx @ tl (stripTrailingSlashes normalizedPath) @ ''/'')"

definition getTrashPrefixesS3 :: "string \<Rightarrow> string \<times> string" where
  "getTrashPrefixesS3 rootPfx =
     (let trashPrefix = rootPfx @ ''.trash/'';
          metaPrefix = trashPrefix @ ''.meta/''
      in (trashPrefix, metaPrefix))"

definition resolveDestinationPathS3 :: "string \<Rightarrow> string option" where
  "resolveDestinationPathS3 target =
     (let normalized = normalizeRequestPath (Some target)
      in if normalized = ''/'' \<or> prefix ''/.trash'' normalized then None
         else
           (case sanitizeName (posix_basename normalized) of
              None \<Rightarrow> None
            | Some name \<Rightarrow> Some normalized))"

section \<open>Targets of the handlers that create or relocate an entry\<close>

text \<open>
  A location as \<open>fs.realpath\<close> returns it: absolute, normalized, without a trailing separator
  unless it is the file system root.
\<close>

definition isCanonical :: "string \<Rightarrow> bool" where
  "isCanonical p = (prefix ''/'' p \<and> posix_normalize p = p \<and> (p = ''/'' \<or> last p \<noteq> slash))"

text \<open>The entry called \<open>name\<close> directly inside the directory \<open>parent\<close>.\<close>

definition childPath :: "string \<Rightarrow> string \<Rightarrow> string" where
  "childPath parent name = (if parent = ''/'' then ''/'' @ name else parent @ ''/'' @ name)"

text \<open>
  \<open>POST /api/trash\<close> names the relocated entry
  \<open>`${Date.now()}-${fileName}-${id}`\<close> with
  \<open>fileName = sanitizeName(path.basename(resolved.fullPath)) ?? "item"\<close> and \<open>id = randomUUID()\<close>,
  and moves it to \<open>path.join(trashDir, trashName)\<close>.
\<close>

definition trashFileName :: "string \<Rightarrow> string" where
  "trashFileName fullPth =
     (case sanitizeName (posix_basename fullPth) of None \<Rightarrow> ''item'' | Some n \<Rightarrow> n)"

definition trashName :: "nat \<Rightarrow> string \<Rightarrow> string \<Rightarrow> string" where
  "trashName now fileName uuid = showNat now @ ''-'' @ fileName @ ''-'' @ uuid"

definition trashPath :: "string \<Rightarrow> nat \<Rightarrow> string \<Rightarrow> string \<Rightarrow> string" where
  "trashPath rootReal now fullPth uuid =
     posix_join [fst (getTrashPaths rootReal), trashName now (trashFileName fullPth) uuid]"

section \<open>An example environment\<close>

text \<open>A host without symbolic links except \<open>/srv/data/link\<close>, which points into the trash
  directory of the root \<open>/srv/data\<close>.\<close>

definition exampleEnv :: env where
  "exampleEnv =
     \<lparr>cwd = ''/app'',
      realpath = (\<lambda>p. if p = ''/srv/data/link'' then Some ''/srv/data/.trash/1-x-u'' else Some p),
      uploadTmpDir = ''/tmp/bro-fm-uploads''\<rparr>"

section \<open>Responses and the local file system\<close>

text \<open>
  A handler answers with a JSON body, with an error status and message
  (\<open>c.json({ error }, status)\<close>), or lets an exception escape (\<open>Uncaught\<close>: the framework
  answers 500).
\<close>

datatype 'a response = Json 'a | Error nat string | Uncaught

datatype role = ReadOnly | ReadWrite | Admin

definition canWrite :: "role \<Rightarrow> bool" where
  "canWrite r = (r \<noteq> ReadOnly)"

text \<open>
  The file system as the handlers see it through \<open>fs\<close> and \<open>Bun\<close>: an association list from
  absolute paths to nodes. File contents are byte strings.
\<close>

type_synonym bytes = string

datatype node = File bytes | Dir

type_synonym fsys = "(string \<times> node) list"

definition pathExists :: "fsys \<Rightarrow> string \<Rightarrow> bool" where
  "pathExists fs p = (map_of fs p \<noteq> None)"

text \<open>\<open>fs.readFile\<close> throws (\<open>None\<close>) unless the path is a file.\<close>

definition readFile :: "fsys \<Rightarrow> string \<Rightarrow> bytes option" where
  "readFile fs p = (case map_of fs p of Some (File b) \<Rightarrow> Some b | _ \<Rightarrow> None)"

text \<open>\<open>Bun.write(p, data)\<close> and \<open>fs.open(p, "w")\<close> create or truncate the file at \<open>p\<close>; they
  throw when \<open>p\<close> is a directory or its parent is not one.\<close>

definition writeFile :: "fsys \<Rightarrow> string \<Rightarrow> bytes \<Rightarrow> fsys option" where
  "writeFile fs p b =
     (if map_of fs p = Some Dir \<or> map_of fs (posix_dirname p) \<noteq> Some Dir then None
      else Some (AList.update p (File b) fs))"

text \<open>\<open>handle.write(data)\<close> on a handle opened for writing appends to the file.\<close>

definition appendFile :: "fsys \<Rightarrow> string \<Rightarrow> bytes \<Rightarrow> fsys" where
  "appendFile fs p b =
     (case map_of fs p of
        Some (File old) \<Rightarrow> AList.update p (File (old @ b)) fs
      | _ \<Rightarrow> AList.update p (File b) fs)"

text \<open>The paths at or below \<open>d\<close>.\<close>

definition isUnder :: "string \<Rightarrow> string \<Rightarrow> bool" where
  "isUnder d p = (p = d \<or> prefix (d @ ''/'') p)"

text \<open>\<open>fs.rm(d, { recursive: true, force: true })\<close>\<close>

definition rmRecursive :: "fsys \<Rightarrow> string \<Rightarrow> fsys" where
  "rmRecursive fs d = filter (\<lambda>(p, n). \<not> isUnder d p) fs"

text \<open>\<open>fs.readdir(d)\<close>: the names of the entries directly inside \<open>d\<close>; it throws unless \<open>d\<close> is a
  directory.\<close>

definition entryNameIn :: "string \<Rightarrow> string \<Rightarrow> string option" where
  "entryNameIn d p =
     (let pre = (if d = ''/'' then ''/'' else d @ ''/'');
          rest = drop (length pre) p
      in if prefix pre p \<and> rest \<noteq> [] \<and> slash \<notin> set rest then Some rest else None)"

definition readdir :: "fsys \<Rightarrow> string \<Rightarrow> string list option" where
  "readdir fs d =
     (if map_of fs d \<noteq> Some Dir then None
      else Some (remdups (List.map_filter (entryNameIn d) (map fst fs))))"

text \<open>\<open>fs.rename(a, b)\<close> moves the node at \<open>a\<close>, with everything below it, to \<open>b\<close>; it throws when
  \<open>a\<close> is missing, when the parent of \<open>b\<close> is not a directory, or when \<open>b\<close> lies inside \<open>a\<close>.\<close>

definition rename :: "fsys \<Rightarrow> string \<Rightarrow> string \<Rightarrow> fsys option" where
  "rename fs a b =
     (if map_of fs a = None \<or> map_of fs (posix_dirname b) \<noteq> Some Dir \<or> prefix (a @ ''/'') b
      then None
      else Some (map (\<lambda>(p, n). if isUnder a p then (b @ drop (length a) p, n) else (p, n))
                   (filter (\<lambda>(p, n). \<not> isUnder b p) fs)))"

section \<open>Chunked upload, local mode\<close>

text \<open>
  \<open>Number.parseInt(s, 10)\<close>: leading white space and a sign are skipped, the decimal digits
  that follow are read, and the result is \<open>NaN\<close> (\<open>None\<close>) when there is none. The rounding of
  very large values to a double is not modelled.
\<close>

definition parseInt :: "string \<Rightarrow> int option" where
  "parseInt s =
     (let t = dropWhile isWhiteSpace s;
          neg = (t \<noteq> [] \<and> hd t = CHR ''-'');
          u = (if t \<noteq> [] \<and> (hd t = CHR ''-'' \<or> hd t = CHR ''+'') then tl t else t);
          ds = takeWhile isDigit u
      in if ds = [] then None
         else Some (if neg then - int (readDigits ds) else int (readDigits ds)))"

text \<open>What \<open>handleLocalUploadInit\<close> stores in \<open>meta.json\<close> and \<open>handleLocalUploadComplete\<close>
  reads back.\<close>

record upload_meta =
  metaPath :: string
  metaName :: string
  metaOverwrite :: bool

definition uploadDir :: "env \<Rightarrow> string \<Rightarrow> string" where
  "uploadDir e uploadId = posix_join [uploadTmpDir e, uploadId]"

definition chunkPath :: "string \<Rightarrow> nat \<Rightarrow> string" where
  "chunkPath dir part = posix_join [dir, showNat part @ ''.part'']"

definition handleLocalUploadStatus :: "env \<Rightarrow> fsys \<Rightarrow> string \<Rightarrow> int list response" where
  "handleLocalUploadStatus e fs uploadId =
     (let dir = uploadDir e uploadId
      in case readdir fs dir of
           None \<Rightarrow> Error 404 ''Upload not found.''
         | Some entries \<Rightarrow>
             Json (List.map_filter (\<lambda>name. parseInt (take (length name - 5) name))
                     (filter (\<lambda>name. suffix ''.part'' name) entries)))"

definition handleLocalUploadChunk ::
  "env \<Rightarrow> fsys \<Rightarrow> string \<Rightarrow> nat \<Rightarrow> bytes \<Rightarrow> unit response \<times> fsys" where
  "handleLocalUploadChunk e fs uploadId partNumber chunk =
     (let dir = uploadDir e uploadId
      in if \<not> pathExists fs dir then (Error 404 ''Upload not found.'', fs)
         else
           (case writeFile fs (chunkPath dir partNumber) chunk of
              None \<Rightarrow> (Uncaught, fs)
            | Some fs' \<Rightarrow> (Json (), fs')))"

text \<open>The assembly loop \<open>for (let part = 1; part <= totalChunks; part += 1)\<close>, over the part
  numbers still to be copied; \<open>Inl\<close> is the state in which a read failed.\<close>

fun assembleParts :: "fsys \<Rightarrow> string \<Rightarrow> string \<Rightarrow> nat list \<Rightarrow> fsys + fsys" where
  "assembleParts fs dir destPath [] = Inr fs"
| "assembleParts fs dir destPath (part # rest) =
     (case readFile fs (chunkPath dir part) of
        None \<Rightarrow> Inl fs
      | Some chunkData \<Rightarrow> assembleParts (appendFile fs destPath chunkData) dir destPath rest)"

text \<open>\<open>parseMeta\<close> stands for \<open>JSON.parse\<close> of the stored descriptor; it fails (\<open>None\<close>) where
  \<open>JSON.parse\<close> throws.\<close>

definition handleLocalUploadComplete ::
  "env \<Rightarrow> (bytes \<Rightarrow> upload_meta option) \<Rightarrow> string \<Rightarrow> fsys \<Rightarrow> string \<Rightarrow> nat
     \<Rightarrow> unit response \<times> fsys" where
  "handleLocalUploadComplete e parseMeta rootReal fs uploadId totalChunks =
     (let dir = uploadDir e uploadId
      in case readFile fs (posix_join [dir, ''meta.json'']) of
           None \<Rightarrow> (Error 404 ''Upload not found.'', fs)
         | Some metaRaw \<Rightarrow>
             (case parseMeta metaRaw of
                None \<Rightarrow> (Uncaught, fs)
              | Some meta \<Rightarrow>
                  (case resolveSafePath e (metaPath meta) rootReal of
                     Inl err \<Rightarrow> (Error 404 ''Path not found.'', fs)
                   | Inr res \<Rightarrow>
                       let destPath = posix_join [fullPath res, metaName meta]
                       in if \<not> isWithinRoot destPath rootReal
                          then (Error 400 ''Invalid file path.'', fs)
                          else if \<not> metaOverwrite meta \<and> pathExists fs destPath
                          then (Error 409 (''File exists: '' @ metaName meta), fs)
                          else
                            (case writeFile fs destPath [] of
                               None \<Rightarrow> (Uncaught, fs)
                             | Some fs1 \<Rightarrow>
                                 (case assembleParts fs1 dir destPath [1 ..< Suc totalChunks] of
                                    Inl fs2 \<Rightarrow> (Error 500 ''Failed to assemble upload.'', fs2)
                                  | Inr fs2 \<Rightarrow> (Json (), rmRecursive fs2 dir))))))"

section \<open>Chunked upload, S3 mode\<close>

text \<open>
  The object store: the objects by key, and the multipart uploads in progress by key and upload
  id, each with its parts by part number. A part carries the integrity tag the store assigned
  to it.
\<close>

record s3part =
  partETag :: string
  partBody :: bytes

record s3state =
  objects :: "(string \<times> bytes) list"
  uploads :: "((string \<times> string) \<times> (nat \<times> s3part) list) list"

datatype s3error = S3NotFound | S3Other

text \<open>\<open>ListParts\<close>: the parts of the upload in ascending part-number order; an unknown upload is
  answered with status 404, which \<open>isS3NotFound\<close> recognises.\<close>

definition listParts :: "s3state \<Rightarrow> string \<Rightarrow> string \<Rightarrow> s3error + (nat \<times> s3part) list" where
  "listParts st key uploadId =
     (case map_of (uploads st) (key, uploadId) of
        None \<Rightarrow> Inl S3NotFound
      | Some ps \<Rightarrow> Inr (sort_key fst ps))"

text \<open>\<open>UploadPart\<close>: a part sent again under the same number replaces the earlier one.\<close>

definition uploadPart ::
  "(bytes \<Rightarrow> string) \<Rightarrow> s3state \<Rightarrow> string \<Rightarrow> string \<Rightarrow> nat \<Rightarrow> bytes \<Rightarrow> s3error + s3state" where
  "uploadPart etagOf st key uploadId partNumber body =
     (case map_of (uploads st) (key, uploadId) of
        None \<Rightarrow> Inl S3NotFound
      | Some ps \<Rightarrow>
          Inr (st\<lparr>uploads :=
                 AList.update (key, uploadId)
                   (AList.update partNumber \<lparr>partETag = etagOf body, partBody = body\<rparr> ps)
                   (uploads st)\<rparr>))"

text \<open>\<open>CompleteMultipartUpload\<close>: the listed parts must exist with the listed tags, in strictly
  ascending order; the object becomes their concatenation in that order and the upload ends.\<close>

definition completeMultipartUpload ::
  "s3state \<Rightarrow> string \<Rightarrow> string \<Rightarrow> (nat \<times> string) list \<Rightarrow> s3error + s3state" where
  "completeMultipartUpload st key uploadId parts =
     (case map_of (uploads st) (key, uploadId) of
        None \<Rightarrow> Inl S3NotFound
      | Some ps \<Rightarrow>
          if parts = [] \<or> \<not> sorted_wrt (<) (map fst parts)
             \<or> (\<exists>(n, t) \<in> set parts. map_option partETag (map_of ps n) \<noteq> Some t)
          then Inl S3Other
          else Inr (st\<lparr>objects :=
                      AList.update key
                        (concat (map (\<lambda>(n, t). case map_of ps n of None \<Rightarrow> [] | Some p \<Rightarrow> partBody p)
                                   parts))
                        (objects st),
                    uploads := AList.delete (key, uploadId) (uploads st)\<rparr>))"

definition handleS3UploadStatus :: "s3state \<Rightarrow> string \<Rightarrow> string \<Rightarrow> nat list response" where
  "handleS3UploadStatus st uploadId key =
     (case listParts st key uploadId of
        Inl err \<Rightarrow> if err = S3NotFound then Error 404 ''Upload not found.'' else Uncaught
      | Inr ps \<Rightarrow> Json (map fst ps))"

definition handleS3UploadChunk ::
  "(bytes \<Rightarrow> string) \<Rightarrow> s3state \<Rightarrow> string \<Rightarrow> string \<Rightarrow> nat \<Rightarrow> bytes
     \<Rightarrow> unit response \<times> s3state" where
  "handleS3UploadChunk etagOf st uploadId key partNumber chunk =
     (case uploadPart etagOf st key uploadId partNumber chunk of
        Inl err \<Rightarrow> (Uncaught, st)
      | Inr st' \<Rightarrow> (Json (), st'))"

definition handleS3UploadComplete ::
  "s3state \<Rightarrow> string \<Rightarrow> string \<Rightarrow> nat \<Rightarrow> unit response \<times> s3state" where
  "handleS3UploadComplete st uploadId key totalChunks =
     (case listParts st key uploadId of
        Inl err \<Rightarrow> (Uncaught, st)
      | Inr listed \<Rightarrow>
          let parts = sort_key fst
                        (map (\<lambda>(n, p). (n, partETag p))
                           (filter (\<lambda>(n, p). partETag p \<noteq> [] \<and> n \<noteq> 0) listed))
          in if length parts < totalChunks then (Error 409 ''Upload incomplete.'', st)
             else
               (case completeMultipartUpload st key uploadId parts of
                  Inl err \<Rightarrow> (Uncaught, st)
                | Inr st' \<Rightarrow> (Json (), st')))"

section \<open>Sequences of part uploads, and an example session\<close>

text \<open>The file system after the part uploads \<open>ops\<close> (part number and bytes, in arrival order)
  have been handled one after the other.\<close>

fun uploadChunks :: "env \<Rightarrow> fsys \<Rightarrow> string \<Rightarrow> (nat \<times> bytes) list \<Rightarrow> fsys" where
  "uploadChunks e fs uploadId [] = fs"
| "uploadChunks e fs uploadId ((partNumber, chunk) # ops) =
     uploadChunks e (snd (handleLocalUploadChunk e fs uploadId partNumber chunk)) uploadId ops"

text \<open>The bytes last sent under part number \<open>n\<close>.\<close>

definition latestPart :: "(nat \<times> bytes) list \<Rightarrow> nat \<Rightarrow> bytes" where
  "latestPart ops n = (case map_of (rev ops) n of None \<Rightarrow> [] | Some b \<Rightarrow> b)"

text \<open>
  An upload session \<open>u1\<close> of two parts for \<open>/srv/data/f.bin\<close>, which exists and may be
  overwritten; only part 1 has arrived.
\<close>

definition exampleUploadFs :: fsys where
  "exampleUploadFs =
     [(''/tmp/bro-fm-uploads'', Dir),
      (''/tmp/bro-fm-uploads/u1'', Dir),
      (''/tmp/bro-fm-uploads/u1/meta.json'', File ''M''),
      (''/tmp/bro-fm-uploads/u1/1.part'', File ''AAA''),
      (''/srv/data'', Dir),
      (''/srv/data/f.bin'', File ''OLD'')]"

text \<open>The same session right after its initialisation, before any part has arrived.\<close>

definition exampleInitFs :: fsys where
  "exampleInitFs =
     [(''/tmp/bro-fm-uploads'', Dir),
      (''/tmp/bro-fm-uploads/u1'', Dir),
      (''/tmp/bro-fm-uploads/u1/meta.json'', File ''M''),
      (''/srv/data'', Dir),
      (''/srv/data/f.bin'', File ''OLD'')]"

definition exampleParseMeta :: "bytes \<Rightarrow> upload_meta option" where
  "exampleParseMeta raw =
     (if raw = ''M'' then Some \<lparr>metaPath = ''/'', metaName = ''f.bin'', metaOverwrite = True\<rparr>
      else None)"

definition exampleS3 :: s3state where
  "exampleS3 =
     \<lparr>objects = [(''users/ann/f.bin'', ''OLD'')],
      uploads = [((''users/ann/f.bin'', ''u1''), [(1, \<lparr>partETag = ''e1'', partBody = ''AAA''\<rparr>)])]\<rparr>"

section \<open>Share registry\<close>













section \<open>Move, local mode\<close>

text \<open>\<open>POST /api/move\<close> with a body that holds the strings \<open>from\<close> and \<open>to\<close>.\<close>

definition apiMove ::
  "env \<Rightarrow> role \<Rightarrow> string \<Rightarrow> fsys \<Rightarrow> string \<Rightarrow> string \<Rightarrow> unit response \<times> fsys" where
  "apiMove e userRole rootReal fs bodyFrom bodyTo =
     (if \<not> canWrite userRole then (Error 403 ''Read-only account.'', fs)
      else
        (case resolveSafePath e bodyFrom rootReal of
           Inl err \<Rightarrow> (Error 404 ''Source path not found.'', fs)
         | Inr fromResolved \<Rightarrow>
             if normalized fromResolved = ''/'' then (Error 400 ''Cannot move the root.'', fs)
             else
               (case resolveDestinationPath e bodyTo rootReal of
                  Inl err \<Rightarrow> (Uncaught, fs)
                | Inr None \<Rightarrow> (Error 400 ''Destination path is invalid.'', fs)
                | Inr (Some dest) \<Rightarrow>
                    if \<not> isWithinRoot (fullPath dest) rootReal
                    then (Error 400 ''Destination path is invalid.'', fs)
                    else if fullPath dest = fullPath fromResolved
                    then (Error 400 ''Destination matches source.'', fs)
                    else if pathExists fs (fullPath dest)
                    then (Error 409 ''Destination already exists.'', fs)
                    else if prefix (fullPath fromResolved @ ''/'') (fullPath dest)
                    then (Error 400 ''Cannot move a folder into itself.'', fs)
                    else
                      (case rename fs (fullPath fromResolved) (fullPath dest) of
                         None \<Rightarrow> (Uncaught, fs)
                       | Some fs' \<Rightarrow> (Json (), fs')))))"

section \<open>Move, S3 mode\<close>

text \<open>The calls on the object store that \<open>handleS3Move\<close> makes, for a body that holds the
  strings \<open>from\<close> and \<open>to\<close>; a call that throws gives \<open>None\<close>.\<close>

definition s3ObjectExists :: "s3state \<Rightarrow> string \<Rightarrow> bool" where
  "s3ObjectExists st key = (map_of (objects st) key \<noteq> None)"

definition s3PrefixExists :: "s3state \<Rightarrow> string \<Rightarrow> bool" where
  "s3PrefixExists st pfx =
     (if pfx = [] then True else list_ex (\<lambda>(k, b). prefix pfx k) (objects st))"

datatype s3type = TFile | TDir | TNone

text \<open>Of the answer \<open>{ type, size, mtime }\<close> of \<open>getS3PathInfo\<close> the handlers below read the
  type only.\<close>

definition getS3PathInfo :: "s3state \<Rightarrow> string \<Rightarrow> string \<Rightarrow> s3type" where
  "getS3PathInfo st rootPfx normalizedPath =
     (if normalizedPath = ''/'' then TDir
      else if s3ObjectExists st (toS3Key rootPfx normalizedPath) then TFile
      else if s3PrefixExists st (toS3Prefix rootPfx normalizedPath) then TDir
      else TNone)"

definition s3PathExists :: "s3state \<Rightarrow> string \<Rightarrow> string \<Rightarrow> bool" where
  "s3PathExists st rootPfx normalizedPath = (getS3PathInfo st rootPfx normalizedPath \<noteq> TNone)"

definition listS3Objects :: "s3state \<Rightarrow> string \<Rightarrow> string list" where
  "listS3Objects st pfx = map fst (filter (\<lambda>(k, b). prefix pfx k) (objects st))"

definition s3CopyObject :: "s3state \<Rightarrow> string \<Rightarrow> string \<Rightarrow> s3state option" where
  "s3CopyObject st fromKey toKey =
     (case map_of (objects st) fromKey of
        None \<Rightarrow> None
      | Some b \<Rightarrow> Some (st\<lparr>objects := AList.update toKey b (objects st)\<rparr>))"

definition s3DeleteObject :: "s3state \<Rightarrow> string \<Rightarrow> s3state" where
  "s3DeleteObject st key = st\<lparr>objects := AList.delete key (objects st)\<rparr>"

definition s3PutObject :: "s3state \<Rightarrow> string \<Rightarrow> bytes \<Rightarrow> s3state" where
  "s3PutObject st key body = st\<lparr>objects := AList.update key body (objects st)\<rparr>"

text \<open>The two loops of \<open>moveS3Path\<close> over the listed keys; \<open>Inl\<close> is the store at the moment a
  copy threw.\<close>

fun copyObjects :: "s3state \<Rightarrow> string \<Rightarrow> string \<Rightarrow> string list \<Rightarrow> s3state + s3state" where
  "copyObjects st fromPrefix toPrefix [] = Inr st"
| "copyObjects st fromPrefix toPrefix (key # keys) =
     (case s3CopyObject st key (toPrefix @ drop (length fromPrefix) key) of
        None \<Rightarrow> Inl st
      | Some st' \<Rightarrow> copyObjects st' fromPrefix toPrefix keys)"

fun deleteObjects :: "s3state \<Rightarrow> string list \<Rightarrow> s3state" where
  "deleteObjects st [] = st"
| "deleteObjects st (key # keys) = deleteObjects (s3DeleteObject st key) keys"

definition moveS3Path :: "s3state \<Rightarrow> string \<Rightarrow> string \<Rightarrow> string \<Rightarrow> s3type \<Rightarrow> s3state + s3state" where
  "moveS3Path st rootPfx fromPath toPath type =
     (if type = TFile then
        (let fromKey = toS3Key rootPfx fromPath;
             toKey = toS3Key rootPfx toPath
         in case s3CopyObject st fromKey toKey of
              None \<Rightarrow> Inl st
            | Some st' \<Rightarrow> Inr (s3DeleteObject st' fromKey))
      else
        (let fromPrefix = toS3Prefix rootPfx fromPath;
             toPrefix = toS3Prefix rootPfx toPath;
             keys = listS3Objects st fromPrefix
         in if keys = [] then Inr (s3PutObject st toPrefix [])
            else
              (case copyObjects st fromPrefix toPrefix keys of
                 Inl st' \<Rightarrow> Inl st'
               | Inr st' \<Rightarrow> Inr (deleteObjects st' keys))))"

definition handleS3Move ::
  "role \<Rightarrow> string \<Rightarrow> s3state \<Rightarrow> string \<Rightarrow> string \<Rightarrow> unit response \<times> s3state" where
  "handleS3Move userRole rootPfx st bodyFrom bodyTo =
     (if \<not> canWrite userRole then (Error 403 ''Read-only account.'', st)
      else
        (case resolveSafeS3Path bodyFrom rootPfx of
           Inl err \<Rightarrow> (Error 404 ''Source path not found.'', st)
         | Inr fromResolved \<Rightarrow>
             if s3normalized fromResolved = ''/'' then (Error 400 ''Cannot move the root.'', st)
             else
               (case resolveDestinationPathS3 bodyTo of
                  None \<Rightarrow> (Error 400 ''Destination path is invalid.'', st)
                | Some destNormalized \<Rightarrow>
                    if destNormalized = s3normalized fromResolved
                    then (Error 400 ''Destination matches source.'', st)
                    else if getS3PathInfo st rootPfx (posix_dirname destNormalized) \<noteq> TDir
                    then (Error 400 ''Destination path is invalid.'', st)
                    else if s3PathExists st rootPfx destNormalized
                    then (Error 409 ''Destination already exists.'', st)
                    else
                      let info = getS3PathInfo st rootPfx (s3normalized fromResolved)
                      in if info = TNone then (Error 404 ''Source path not found.'', st)
                         else if info = TDir
                                 \<and> prefix (s3normalized fromResolved @ ''/'') destNormalized
                         then (Error 400 ''Cannot move a folder into itself.'', st)
                         else
                           (case moveS3Path st rootPfx (s3normalized fromResolved)
                                   destNormalized info of
                              Inl st' \<Rightarrow> (Uncaught, st')
                            | Inr st' \<Rightarrow> (Json (), st')))))"

text \<open>A root with the directory \<open>/a\<close> that holds the file \<open>b\<close>; and a bucket in which the object
  \<open>a\<close> of a user stands beside objects under the prefix \<open>a/\<close>.\<close>

definition exampleMoveFs :: fsys where
  "exampleMoveFs =
     [(''/srv/data'', Dir),
      (''/srv/data/a'', Dir),
      (''/srv/data/a/b'', File ''x'')]"

definition exampleMoveS3 :: s3state where
  "exampleMoveS3 =
     \<lparr>objects = [(''users/ann/a'', ''file''), (''users/ann/a/y/z'', ''zz'')],
      uploads = []\<rparr>"

definition isErrorResponse :: "'a response \<Rightarrow> bool" where
  "isErrorResponse r = (case r of Error code msg \<Rightarrow> True | _ \<Rightarrow> False)"

section \<open>Order of a directory listing\<close>

datatype entry_type = DirT | FileT

record dir_entry =
  entryName :: string
  entryType :: entry_type
  entrySize :: nat
  entryMtime :: nat

text \<open>
  \<open>a.localeCompare(b, undefined, { sensitivity: "base" })\<close> compares the collation keys of the
  two strings; at sensitivity \<open>base\<close> the key ignores case and accents. The key function of the
  runtime's collator is a parameter \<open>ckey\<close> into a linear order.
\<close>

definition localeCompareBase :: "(string \<Rightarrow> 'k::linorder) \<Rightarrow> string \<Rightarrow> string \<Rightarrow> int" where
  "localeCompareBase ckey a b = (if ckey a < ckey b then - 1 else if ckey a = ckey b then 0 else 1)"

text \<open>The comparator both listings pass to \<open>sort\<close>.\<close>

definition compareEntries :: "(string \<Rightarrow> 'k::linorder) \<Rightarrow> dir_entry \<Rightarrow> dir_entry \<Rightarrow> int" where
  "compareEntries ckey a b =
     (if entryType a \<noteq> entryType b then (if entryType a = DirT then - 1 else 1)
      else localeCompareBase ckey (entryName a) (entryName b))"

text \<open>\<open>Array.prototype.sort\<close> is stable; with a consistent comparator its result is that of
  inserting the elements, from the last to the first, each before the first element it does
  not have to follow.\<close>

fun insertBy :: "('a \<Rightarrow> 'a \<Rightarrow> int) \<Rightarrow> 'a \<Rightarrow> 'a list \<Rightarrow> 'a list" where
  "insertBy cmp x [] = [x]"
| "insertBy cmp x (y # ys) = (if cmp x y \<le> 0 then x # y # ys else y # insertBy cmp x ys)"

definition arraySort :: "('a \<Rightarrow> 'a \<Rightarrow> int) \<Rightarrow> 'a list \<Rightarrow> 'a list" where
  "arraySort cmp xs = foldr (insertBy cmp) xs []"

definition sortEntries :: "(string \<Rightarrow> 'k::linorder) \<Rightarrow> dir_entry list \<Rightarrow> dir_entry list" where
  "sortEntries ckey entries = arraySort (compareEntries ckey) entries"

text \<open>For the proofs: the key by which the comparator orders the entries.\<close>

definition typeRank :: "entry_type \<Rightarrow> nat" where
  "typeRank t = (case t of DirT \<Rightarrow> 0 | FileT \<Rightarrow> 1)"

definition entryKey :: "(string \<Rightarrow> 'k::linorder) \<Rightarrow> dir_entry \<Rightarrow> nat \<times> 'k" where
  "entryKey ckey e = (typeRank (entryType e), ckey (entryName e))"

text \<open>A collation key that ignores the case of the ASCII letters, and example entries.\<close>

definition asciiLower :: "char \<Rightarrow> char" where
  "asciiLower c =
     (if 65 \<le> (of_char c :: nat) \<and> (of_char c :: nat) \<le> 90 then char_of (of_char c + 32 :: nat)
      else c)"

definition asciiFoldKey :: "string \<Rightarrow> string" where
  "asciiFoldKey s = map asciiLower s"

definition fileEntry :: "string \<Rightarrow> dir_entry" where
  "fileEntry n = \<lparr>entryName = n, entryType = FileT, entrySize = 0, entryMtime = 0\<rparr>"

definition dirEntry :: "string \<Rightarrow> dir_entry" where
  "dirEntry n = \<lparr>entryName = n, entryType = DirT, entrySize = 0, entryMtime = 0\<rparr>"

section \<open>Properties of the path functions\<close>

lemma last_not_sep: "n \<noteq> [] \<Longrightarrow> c \<notin> set n \<Longrightarrow> last n \<noteq> c"
  by (induction n) auto

lemma hd_rev_not_sep: "n \<noteq> [] \<Longrightarrow> c \<notin> set n \<Longrightarrow> hd (rev n) \<noteq> c"
  by (simp add: hd_rev last_not_sep)

lemma splitOn_nonempty [simp]: "splitOn c s \<noteq> []"
  by (induction s) (auto split: list.splits)

lemma splitOn_Cons:
  "splitOn c (x # xs) =
     (if x = c then [] # splitOn c xs else (x # hd (splitOn c xs)) # tl (splitOn c xs))"
  by (cases "splitOn c xs") auto

declare splitOn.simps(2) [simp del]

declare splitOn_Cons [simp]

lemma splitOn_no_sep: "seg \<in> set (splitOn c s) \<Longrightarrow> c \<notin> set seg"
proof (induction s arbitrary: seg)
  case Nil
  then show ?case by simp
next
  case (Cons x xs)
  show ?case
  proof (cases "x = c")
    case True
    with Cons show ?thesis by auto
  next
    case False
    obtain h t where ht: "splitOn c xs = h # t"
      by (cases "splitOn c xs") auto
    with Cons False show ?thesis by auto
  qed
qed

lemma splitOn_chars: "seg \<in> set (splitOn c s) \<Longrightarrow> set seg \<subseteq> set s"
proof (induction s arbitrary: seg)
  case Nil
  then show ?case by simp
next
  case (Cons x xs)
  obtain h t where ht: "splitOn c xs = h # t"
    by (cases "splitOn c xs") auto
  have "set h \<subseteq> set xs" using Cons.IH[of h] ht by simp
  moreover have "\<And>u. u \<in> set t \<Longrightarrow> set u \<subseteq> set xs" using Cons.IH ht by simp
  ultimately show ?case using Cons.prems ht by (auto split: if_splits)
qed

lemma splitOn_single: "c \<notin> set n \<Longrightarrow> splitOn c n = [n]"
  by (induction n) auto

lemma splitOn_append: "splitOn c (a @ c # b) = splitOn c a @ splitOn c b"
proof (induction a)
  case Nil
  then show ?case by simp
next
  case (Cons x xs)
  obtain h t where ht: "splitOn c xs = h # t"
    by (cases "splitOn c xs") auto
  with Cons show ?case by simp
qed

lemma splitOn_sep_append: "c \<notin> set a \<Longrightarrow> splitOn c (a @ c # b) = a # splitOn c b"
  by (induction a) auto

lemma splitOn_join:
  "segs \<noteq> [] \<Longrightarrow> \<forall>s \<in> set segs. c \<notin> set s \<Longrightarrow> splitOn c (joinWith c segs) = segs"
proof (induction c segs rule: joinWith.induct)
  case (1 c)
  then show ?case by simp
next
  case (2 c s)
  then show ?case by (simp add: splitOn_single)
next
  case (3 c s t ss)
  then show ?case by (simp add: splitOn_sep_append)
qed

lemma joinWith_snoc: "segs \<noteq> [] \<Longrightarrow> joinWith c (segs @ [n]) = joinWith c segs @ c # n"
  by (induction c segs rule: joinWith.induct) auto

lemma joinWith_chars: "set (joinWith c segs) \<subseteq> insert c (\<Union> (set ` set segs))"
  by (induction c segs rule: joinWith.induct) auto

lemma joinWith_Nil_iff: "joinWith c segs = [] \<longleftrightarrow> segs = [] \<or> segs = [[]]"
  by (induction c segs rule: joinWith.induct) auto

lemma joinWith_last: "segs \<noteq> [] \<Longrightarrow> last segs \<noteq> [] \<Longrightarrow> last (joinWith c segs) = last (last segs)"
  by (induction c segs rule: joinWith.induct) (auto simp: joinWith_Nil_iff)

lemma normStep_False_keeps:
  assumes "\<forall>s \<in> set res. P s" and "seg \<noteq> [] \<Longrightarrow> seg \<noteq> ''.'' \<Longrightarrow> seg \<noteq> ''..'' \<Longrightarrow> P seg"
  shows "\<forall>s \<in> set (normStep False res seg). P s"
  using assms by (auto simp: normStep_def dest: in_set_butlastD)

lemma foldl_normStep_False_keeps:
  "\<forall>s \<in> set res. P s \<Longrightarrow> (\<And>seg. seg \<in> set segs \<Longrightarrow> seg \<noteq> [] \<Longrightarrow> seg \<noteq> ''.'' \<Longrightarrow> seg \<noteq> ''..'' \<Longrightarrow> P seg)
   \<Longrightarrow> \<forall>s \<in> set (foldl (normStep False) res segs). P s"
proof (induction segs arbitrary: res)
  case Nil
  then show ?case by simp
next
  case (Cons x xs)
  have "\<forall>s \<in> set (normStep False res x). P s"
    by (rule normStep_False_keeps) (use Cons.prems in auto)
  then show ?case using Cons.IH Cons.prems(2) by simp
qed

lemma normSegs_False_plain:
  assumes "s \<in> set (normSegs False segs)"
  shows "s \<noteq> [] \<and> s \<noteq> ''.'' \<and> s \<noteq> ''..'' \<and> s \<in> set segs"
proof -
  have "\<forall>s \<in> set (foldl (normStep False) [] segs). s \<noteq> [] \<and> s \<noteq> ''.'' \<and> s \<noteq> ''..'' \<and> s \<in> set segs"
    by (rule foldl_normStep_False_keeps) auto
  with assms show ?thesis by (simp add: normSegs_def)
qed

lemma replaceBackslashes_none: "backslash \<notin> set (replaceBackslashes s)"
  by (auto simp: replaceBackslashes_def)

lemma requestRaw_props:
  "requestRaw input \<noteq> []" "hd (requestRaw input) = slash" "backslash \<notin> set (requestRaw input)"
proof -
  define raw0 where "raw0 = trim (case input of None \<Rightarrow> ''/'' | Some s \<Rightarrow> s)"
  define raw2 where "raw2 = replaceBackslashes (if raw0 = [] then ''/'' else raw0)"
  have r: "requestRaw input = (if prefix ''/'' raw2 then raw2 else ''/'' @ raw2)"
    by (simp add: requestRaw_def raw0_def raw2_def Let_def)
  have nb: "backslash \<notin> set raw2" by (simp add: raw2_def replaceBackslashes_none)
  show "requestRaw input \<noteq> []" using r by (auto simp: prefix_def)
  show "hd (requestRaw input) = slash" using r by (auto simp: prefix_def)
  show "backslash \<notin> set (requestRaw input)" using r nb by auto
qed

lemma normalizeRequestPath_unfold:
  "normalizeRequestPath input =
     (let ks = normSegs False (splitOn slash (requestRaw input))
      in ''/'' @ joinWith slash ks @ (if ks \<noteq> [] \<and> last (requestRaw input) = slash then ''/'' else []))"
proof -
  define raw where "raw = requestRaw input"
  define ks where "ks = normSegs False (splitOn slash raw)"
  have raw: "raw \<noteq> []" "hd raw = slash" by (simp_all add: raw_def requestRaw_props)
  have plain: "\<And>s. s \<in> set ks \<Longrightarrow> s \<noteq> []"
    using normSegs_False_plain by (auto simp: ks_def)
  have q: "joinWith slash ks = [] \<longleftrightarrow> ks = []"
    using plain by (auto simp: joinWith_Nil_iff)
  have pn: "posix_normalize raw =
      (if ks = [] then ''/'' else ''/'' @ joinWith slash ks @ (if last raw = slash then ''/'' else []))"
    using raw q by (simp add: posix_normalize_def normalizeString_def ks_def Let_def)
  have "prefix ''/'' (posix_normalize raw)" by (simp add: pn)
  then have "normalizeRequestPath input = posix_normalize raw"
    by (simp add: normalizeRequestPath_def raw_def Let_def)
  with pn show ?thesis by (auto simp: ks_def raw_def Let_def)
qed

lemma normalizeRequestPath_segments:
  fixes input
  defines "ks \<equiv> normSegs False (splitOn slash (requestRaw input))"
  shows "\<forall>s \<in> set ks. s \<noteq> [] \<and> s \<noteq> ''.'' \<and> s \<noteq> ''..'' \<and> slash \<notin> set s \<and> backslash \<notin> set s"
proof
  fix s assume "s \<in> set ks"
  then have p: "s \<noteq> [] \<and> s \<noteq> ''.'' \<and> s \<noteq> ''..'' \<and> s \<in> set (splitOn slash (requestRaw input))"
    unfolding ks_def by (rule normSegs_False_plain)
  then have "slash \<notin> set s" using splitOn_no_sep by blast
  moreover have "set s \<subseteq> set (requestRaw input)" using p splitOn_chars by blast
  then have "backslash \<notin> set s" using requestRaw_props(3) by blast
  ultimately show "s \<noteq> [] \<and> s \<noteq> ''.'' \<and> s \<noteq> ''..'' \<and> slash \<notin> set s \<and> backslash \<notin> set s"
    using p by simp
qed

lemma set_splitOn_rooted:
  assumes "\<forall>s \<in> set ks. slash \<notin> set s"
  shows "set (splitOn slash (''/'' @ joinWith slash ks @ (if ks \<noteq> [] \<and> b then ''/'' else []))) \<subseteq> insert [] (set ks)"
proof (cases "ks = []")
  case True
  then show ?thesis by simp
next
  case False
  have j: "splitOn slash (joinWith slash ks) = ks"
    using False assms by (simp add: splitOn_join)
  show ?thesis
  proof (cases b)
    case True
    have "splitOn slash (joinWith slash ks @ ''/'') = ks @ [[]]"
      using splitOn_append[of slash "joinWith slash ks" "[]"] j by simp
    then show ?thesis using False True by auto
  next
    case False
    then show ?thesis using j by auto
  qed
qed


lemma posix_normalize_abs:
  assumes "p \<noteq> []" "hd p = slash"
  shows "posix_normalize p =
     (let ks = normSegs False (splitOn slash p)
      in ''/'' @ joinWith slash ks @ (if ks \<noteq> [] \<and> last p = slash then ''/'' else []))"
proof -
  define ks where "ks = normSegs False (splitOn slash p)"
  have plain: "\<And>s. s \<in> set ks \<Longrightarrow> s \<noteq> []"
    using normSegs_False_plain by (auto simp: ks_def)
  have q: "joinWith slash ks = [] \<longleftrightarrow> ks = []"
    using plain by (auto simp: joinWith_Nil_iff)
  have "posix_normalize p =
      (if ks = [] then ''/'' else ''/'' @ joinWith slash ks @ (if last p = slash then ''/'' else []))"
    using assms q by (simp add: posix_normalize_def normalizeString_def ks_def Let_def)
  then show ?thesis by (auto simp: ks_def Let_def)
qed

lemma normSegs_False_slashfree:
  "s \<in> set (normSegs False (splitOn slash p)) \<Longrightarrow> s \<noteq> [] \<and> s \<noteq> ''.'' \<and> s \<noteq> ''..'' \<and> slash \<notin> set s"
  using normSegs_False_plain splitOn_no_sep by blast

lemma isCanonical_form:
  assumes "isCanonical p"
  shows "p = ''/'' @ joinWith slash (normSegs False (splitOn slash p))"
proof -
  define ks where "ks = normSegs False (splitOn slash p)"
  from assms have p: "p \<noteq> []" "hd p = slash" "posix_normalize p = p" "p = ''/'' \<or> last p \<noteq> slash"
    by (auto simp: isCanonical_def prefix_def)
  have n: "p = ''/'' @ joinWith slash ks @ (if ks \<noteq> [] \<and> last p = slash then ''/'' else [])"
    using posix_normalize_abs[OF p(1,2)] p(3) by (simp add: ks_def Let_def)
  have "p = ''/'' @ joinWith slash ks"
  proof (cases "p = ''/''")
    case True
    then show ?thesis using n by (auto split: if_splits)
  next
    case False
    with p(4) have "last p \<noteq> slash" by simp
    with n show ?thesis by simp
  qed
  then show ?thesis by (simp add: ks_def)
qed

lemma normSegs_snoc_plain:
  assumes "n \<noteq> []" "n \<noteq> ''.''" "n \<noteq> ''..''"
  shows "normSegs a (segs @ [n]) = normSegs a segs @ [n]"
  using assms by (simp add: normSegs_def normStep_def)

lemma posix_join_child:
  assumes c: "isCanonical parent"
    and n: "n \<noteq> []" "n \<noteq> ''.''" "n \<noteq> ''..''" "slash \<notin> set n"
  shows "posix_join [parent, n] = childPath parent n"
proof -
  define ks where "ks = normSegs False (splitOn slash parent)"
  have form: "parent = ''/'' @ joinWith slash ks"
    using isCanonical_form[OF c] by (simp add: ks_def)
  then have pne: "parent \<noteq> []" by auto
  let ?j = "parent @ slash # n"
  have "hd parent = slash" using form by simp
  then have hdj: "hd ?j = slash" using pne by simp
  have lastj: "last ?j \<noteq> slash" using n by (simp add: last_not_sep)
  have "splitOn slash ?j = splitOn slash parent @ [n]"
    using n(4) by (simp add: splitOn_append splitOn_single)
  then have ks': "normSegs False (splitOn slash ?j) = ks @ [n]"
    using n by (simp add: normSegs_snoc_plain ks_def)
  have "posix_normalize ?j = ''/'' @ joinWith slash (ks @ [n])"
    using posix_normalize_abs[of ?j] hdj lastj ks' by (simp add: Let_def)
  moreover have "posix_join [parent, n] = posix_normalize ?j"
    using pne n(1) by (simp add: posix_join_def)
  moreover have "''/'' @ joinWith slash (ks @ [n]) = childPath parent n"
  proof (cases "ks = []")
    case True
    then show ?thesis using form by (simp add: childPath_def)
  next
    case False
    then have "joinWith slash ks \<noteq> []"
      using normSegs_False_slashfree[of _ parent] by (auto simp: joinWith_Nil_iff ks_def)
    then have "parent \<noteq> ''/''" using form by auto
    then show ?thesis using form False by (simp add: childPath_def joinWith_snoc)
  qed
  ultimately show ?thesis by simp
qed

lemma posix_basename_child:
  assumes "n \<noteq> []" "slash \<notin> set n"
  shows "posix_basename (pre @ slash # n) = n"
proof -
  have h: "hd (rev n) \<noteq> slash" using assms by (simp add: hd_rev_not_sep)
  have "rev (pre @ slash # n) = rev n @ slash # rev pre" by simp
  moreover have "dropWhile (\<lambda>c. c = slash) (rev n @ slash # rev pre) = rev n @ slash # rev pre"
    using assms h by (cases "rev n") auto
  moreover have "takeWhile (\<lambda>c. c \<noteq> slash) (rev n @ slash # rev pre) = rev n"
    using assms(2) by (subst takeWhile_append2) auto
  ultimately show ?thesis by (simp add: posix_basename_def)
qed

lemma posix_dirname_child:
  assumes "n \<noteq> []" "slash \<notin> set n" "prefix ''/'' parent"
  shows "posix_dirname (childPath parent n) = parent"
proof -
  from assms(3) obtain rest where parent: "parent = slash # rest" by (auto simp: prefix_def)
  have h: "hd (rev n) \<noteq> slash" using assms by (simp add: hd_rev_not_sep)
  have dw1: "\<And>xs. dropWhile (\<lambda>c. c = slash) (rev n @ xs) = rev n @ xs"
    using assms h by (cases "rev n") auto
  have dw2: "\<And>xs. dropWhile (\<lambda>c. c \<noteq> slash) (rev n @ slash # xs) = slash # xs"
    using assms(2) by (subst dropWhile_append2) auto
  have dw3: "dropWhile (\<lambda>c. c \<noteq> slash) (rev n) = []"
    using assms(2) by auto
  show ?thesis
  proof (cases "rest = []")
    case True
    then have "childPath parent n = slash # n" by (simp add: childPath_def parent)
    then show ?thesis using dw1[of "[]"] dw3 True parent by (simp add: posix_dirname_def)
  next
    case False
    then have cp: "childPath parent n = slash # rest @ slash # n" by (simp add: childPath_def parent)
    have "dropWhile (\<lambda>c. c \<noteq> slash) (dropWhile (\<lambda>c. c = slash) (rev (tl (slash # rest @ slash # n)))) = slash # rev rest"
      using dw1[of "slash # rev rest"] dw2[of "rev rest"] by simp
    then have "posix_dirname (slash # rest @ slash # n) = slash # rest"
      using False by (simp add: posix_dirname_def Let_def)
    then show ?thesis unfolding cp by (simp add: parent)
  qed
qed

lemma posix_normalize_child:
  assumes c: "isCanonical parent"
    and n: "n \<noteq> []" "n \<noteq> ''.''" "n \<noteq> ''..''" "slash \<notin> set n"
  shows "posix_normalize (childPath parent n) = childPath parent n"
proof (cases "parent = ''/''")
  case True
  have "splitOn slash (slash # n) = [[], n]" using n(4) by (simp add: splitOn_single)
  then have "normSegs False (splitOn slash (slash # n)) = [n]"
    using n by (simp add: normSegs_def normStep_def)
  moreover have "last (slash # n) \<noteq> slash" using n by (simp add: last_not_sep)
  ultimately have "posix_normalize (slash # n) = slash # n"
    using posix_normalize_abs[of "slash # n"] by (simp add: Let_def)
  then show ?thesis using True by (simp add: childPath_def)
next
  case False
  from c have "parent \<noteq> []" by (auto simp: isCanonical_def prefix_def)
  then have "posix_join [parent, n] = posix_normalize (parent @ slash # n)"
    using n(1) by (simp add: posix_join_def)
  then show ?thesis using posix_join_child[OF c n] False by (simp add: childPath_def)
qed

lemma isCanonical_child:
  assumes c: "isCanonical parent"
    and n: "n \<noteq> []" "n \<noteq> ''.''" "n \<noteq> ''..''" "slash \<notin> set n"
  shows "isCanonical (childPath parent n)"
proof -
  let ?c = "childPath parent n"
  from c have "prefix ''/'' parent" by (simp add: isCanonical_def)
  then have pre: "prefix ''/'' ?c" by (auto simp: childPath_def prefix_def)
  have last: "last ?c \<noteq> slash" using n by (simp add: childPath_def last_not_sep)
  show ?thesis
    using pre last posix_normalize_child[OF c n] by (simp add: isCanonical_def)
qed

section \<open>Properties of names and of the trash rule\<close>

lemma normalizeRequestPath_rooted: "\<exists>t. normalizeRequestPath input = slash # t"
  by (simp add: normalizeRequestPath_unfold Let_def)

lemma sanitizeName_Some:
  assumes "sanitizeName v = Some n"
  shows "n = stripNul (trim v)" "n \<noteq> []" "slash \<notin> set n" "backslash \<notin> set n"
    "n \<noteq> ''.''" "n \<noteq> ''..''"
  using assms by (auto simp: sanitizeName_def Let_def split: if_splits)

lemma digitChar_not_special:
  assumes "d < 10"
  shows "digitChar d \<noteq> slash" "digitChar d \<noteq> CHR ''.''"
proof -
  have "of_char (digitChar d) = (48 + d :: nat)"
    using assms by (simp add: digitChar_def)
  then have "of_char (digitChar d) \<noteq> (47 :: nat)" "of_char (digitChar d) \<noteq> (46 :: nat)"
    by simp_all
  then show "digitChar d \<noteq> slash" "digitChar d \<noteq> CHR ''.''"
    by auto
qed

lemma showNat_chars: "c \<in> set (showNat n) \<Longrightarrow> c \<noteq> slash \<and> c \<noteq> CHR ''.''"
proof (induction n rule: showNat.induct)
  case (1 n)
  show ?case
  proof (cases "n < 10")
    case True
    then have "showNat n = [digitChar n]" by (subst showNat.simps) simp
    with "1.prems" True show ?thesis using digitChar_not_special by auto
  next
    case False
    then have s: "showNat n = showNat (n div 10) @ [digitChar (n mod 10)]"
      by (subst showNat.simps) simp
    have "n mod 10 < 10" by simp
    then have d: "digitChar (n mod 10) \<noteq> slash \<and> digitChar (n mod 10) \<noteq> CHR ''.''"
      using digitChar_not_special by blast
    from "1.prems" s have "c \<in> set (showNat (n div 10)) \<or> c = digitChar (n mod 10)" by auto
    then show ?thesis
    proof
      assume "c \<in> set (showNat (n div 10))"
      then show ?thesis using "1.IH" False by simp
    next
      assume "c = digitChar (n mod 10)"
      then show ?thesis using d by simp
    qed
  qed
qed

lemma showNat_nonempty: "showNat n \<noteq> []"
  by (subst showNat.simps) simp

lemma trashFileName_plain: "trashFileName p \<noteq> [] \<and> slash \<notin> set (trashFileName p)"
proof (cases "sanitizeName (posix_basename p)")
  case None
  then show ?thesis by (simp add: trashFileName_def)
next
  case (Some n)
  then show ?thesis using sanitizeName_Some(2,3) [OF Some] by (simp add: trashFileName_def)
qed

lemma trashName_plain:
  assumes "slash \<notin> set fileName" "slash \<notin> set uuid"
  shows "trashName now fileName uuid \<noteq> []" "trashName now fileName uuid \<noteq> ''.''"
    "trashName now fileName uuid \<noteq> ''..''" "slash \<notin> set (trashName now fileName uuid)"
proof -
  let ?t = "trashName now fileName uuid"
  obtain d ds where sn: "showNat now = d # ds"
    using showNat_nonempty by (cases "showNat now") auto
  then have "d \<in> set (showNat now)" by simp
  then have d: "d \<noteq> slash" "d \<noteq> CHR ''.''" using showNat_chars by blast+
  have t: "?t = d # ds @ ''-'' @ fileName @ ''-'' @ uuid"
    by (simp add: trashName_def sn)
  show "?t \<noteq> []" by (simp add: t)
  show "?t \<noteq> ''.''" using d by (simp add: t)
  show "?t \<noteq> ''..''" using d by (simp add: t)
  have "\<And>c. c \<in> set (showNat now) \<Longrightarrow> c \<noteq> slash" using showNat_chars by blast
  then have "slash \<notin> set (showNat now)" by blast
  then show "slash \<notin> set ?t" using assms by (simp add: trashName_def)
qed

lemma isCanonical_rooted: "isCanonical p \<Longrightarrow> prefix ''/'' p"
  by (simp add: isCanonical_def)

section \<open>Properties of the chunked upload in local mode\<close>

lemma digitVal_digitChar: "d < 10 \<Longrightarrow> digitVal (digitChar d) = d"
  by (simp add: digitVal_def digitChar_def)

lemma readDigits_snoc: "readDigits (xs @ [c]) = 10 * readDigits xs + digitVal c"
  by (simp add: readDigits_def)

lemma readDigits_showNat: "readDigits (showNat n) = n"
proof (induction n rule: showNat.induct)
  case (1 n)
  show ?case
  proof (cases "n < 10")
    case True
    then have "showNat n = [digitChar n]" by (subst showNat.simps) simp
    then show ?thesis using True by (simp add: readDigits_def digitVal_digitChar)
  next
    case False
    then have s: "showNat n = showNat (n div 10) @ [digitChar (n mod 10)]"
      by (subst showNat.simps) simp
    have "readDigits (showNat n) = 10 * readDigits (showNat (n div 10)) + digitVal (digitChar (n mod 10))"
      unfolding s by (rule readDigits_snoc)
    also have "\<dots> = 10 * (n div 10) + n mod 10"
      using "1.IH" False by (simp add: digitVal_digitChar)
    finally show ?thesis by simp
  qed
qed

lemma showNat_inj: "showNat a = showNat b \<Longrightarrow> a = b"
  using readDigits_showNat by metis

lemma partName_plain:
  "showNat n @ ''.part'' \<noteq> []" "showNat n @ ''.part'' \<noteq> ''.''"
  "showNat n @ ''.part'' \<noteq> ''..''" "slash \<notin> set (showNat n @ ''.part'')"
proof -
  have l: "5 \<le> length (showNat n @ ''.part'')" by simp
  show "showNat n @ ''.part'' \<noteq> []" by simp
  show "showNat n @ ''.part'' \<noteq> ''.''" using l by (metis One_nat_def length_Cons list.size(3) numeral_le_one_iff semiring_norm(70))
  show "showNat n @ ''.part'' \<noteq> ''..''"
  proof
    assume "showNat n @ ''.part'' = ''..''"
    then have "length (showNat n @ ''.part'') = 2" by simp
    with l show False by simp
  qed
  have "\<And>c. c \<in> set (showNat n) \<Longrightarrow> c \<noteq> slash" using showNat_chars by blast
  then have "slash \<notin> set (showNat n)" by blast
  then show "slash \<notin> set (showNat n @ ''.part'')" by simp
qed

lemma childPath_inj: "childPath d a = childPath d b \<Longrightarrow> a = b"
  by (simp add: childPath_def split: if_splits)

lemma childPath_under:
  assumes "d \<noteq> ''/''"
  shows "isUnder d (childPath d x)" and "x \<noteq> [] \<Longrightarrow> childPath d x \<noteq> d"
  using assms by (simp_all add: childPath_def isUnder_def)

lemma chunkPath_child:
  assumes "isCanonical d"
  shows "chunkPath d n = childPath d (showNat n @ ''.part'')"
  unfolding chunkPath_def by (rule posix_join_child [OF assms partName_plain])

lemma chunkPath_inj:
  assumes "isCanonical d" "chunkPath d a = chunkPath d b"
  shows "a = b"
proof -
  have "childPath d (showNat a @ ''.part'') = childPath d (showNat b @ ''.part'')"
    using assms by (simp add: chunkPath_child)
  then have "showNat a @ ''.part'' = showNat b @ ''.part''" by (rule childPath_inj)
  then show ?thesis using showNat_inj by simp
qed

lemma chunkPath_dirname: "isCanonical d \<Longrightarrow> posix_dirname (chunkPath d n) = d"
  using posix_dirname_child [OF partName_plain(1,4), of d n]
  by (simp add: chunkPath_child isCanonical_rooted)

lemma chunkPath_under:
  assumes "isCanonical d" "d \<noteq> ''/''"
  shows "isUnder d (chunkPath d n)" and "chunkPath d n \<noteq> d"
  using childPath_under [OF assms(2)] partName_plain(1) [of n]
  by (simp_all add: chunkPath_child [OF assms(1)])

lemma uploadDir_canonical:
  assumes "isCanonical (uploadTmpDir e)"
    and "uploadId \<noteq> []" "uploadId \<noteq> ''.''" "uploadId \<noteq> ''..''" "slash \<notin> set uploadId"
  shows "isCanonical (uploadDir e uploadId)" and "uploadDir e uploadId \<noteq> ''/''"
    and "uploadDir e uploadId = childPath (uploadTmpDir e) uploadId"
proof -
  show c: "uploadDir e uploadId = childPath (uploadTmpDir e) uploadId"
    unfolding uploadDir_def by (rule posix_join_child [OF assms])
  show "isCanonical (uploadDir e uploadId)"
    unfolding c by (rule isCanonical_child [OF assms])
  show "uploadDir e uploadId \<noteq> ''/''"
    using assms(2) by (auto simp: c childPath_def append_eq_Cons_conv)
qed

text \<open>One part upload into a scratch directory that exists writes exactly the part file.\<close>

lemma handleLocalUploadChunk_writes:
  assumes "isCanonical (uploadDir e uploadId)"
    and "map_of fs (uploadDir e uploadId) = Some Dir"
    and "map_of fs (chunkPath (uploadDir e uploadId) n) \<noteq> Some Dir"
  shows "handleLocalUploadChunk e fs uploadId n c
      = (Json (), AList.update (chunkPath (uploadDir e uploadId) n) (File c) fs)"
  using assms
  by (simp add: handleLocalUploadChunk_def Let_def pathExists_def writeFile_def chunkPath_dirname)

lemma uploadChunks_map_of:
  assumes c: "isCanonical (uploadDir e uploadId)" and ne: "uploadDir e uploadId \<noteq> ''/''"
  shows "map_of fs (uploadDir e uploadId) = Some Dir
    \<Longrightarrow> \<forall>n \<in> fst ` set ops. map_of fs (chunkPath (uploadDir e uploadId) n) \<noteq> Some Dir
    \<Longrightarrow> (\<forall>m. map_of (uploadChunks e fs uploadId ops) (chunkPath (uploadDir e uploadId) m)
            = (case map_of (rev ops) m of
                 Some b \<Rightarrow> Some (File b)
               | None \<Rightarrow> map_of fs (chunkPath (uploadDir e uploadId) m)))
        \<and> (\<forall>p. (\<forall>n \<in> fst ` set ops. p \<noteq> chunkPath (uploadDir e uploadId) n)
              \<longrightarrow> map_of (uploadChunks e fs uploadId ops) p = map_of fs p)"
proof (induction ops arbitrary: fs)
  case Nil
  then show ?case by simp
next
  case (Cons op ops)
  obtain n b where op: "op = (n, b)" by (cases op)
  let ?d = "uploadDir e uploadId"
  let ?fs1 = "AList.update (chunkPath ?d n) (File b) fs"
  have notdir: "map_of fs (chunkPath ?d n) \<noteq> Some Dir"
    using Cons.prems(2) op by simp
  have step: "handleLocalUploadChunk e fs uploadId n b = (Json (), ?fs1)"
    by (rule handleLocalUploadChunk_writes [OF c Cons.prems(1) notdir])
  have u: "uploadChunks e fs uploadId (op # ops) = uploadChunks e ?fs1 uploadId ops"
    by (simp add: op step)
  have d1: "map_of ?fs1 ?d = Some Dir"
    using Cons.prems(1) chunkPath_under(2) [OF c ne, of n] by (simp add: update_conv')
  have nd1: "\<forall>k \<in> fst ` set ops. map_of ?fs1 (chunkPath ?d k) \<noteq> Some Dir"
    using Cons.prems(2) by (auto simp: update_conv')
  note IH = Cons.IH [OF d1 nd1]
  have a: "map_of (uploadChunks e fs uploadId (op # ops)) (chunkPath ?d m)
            = (case map_of (rev (op # ops)) m of
                 Some b \<Rightarrow> Some (File b)
               | None \<Rightarrow> map_of fs (chunkPath ?d m))" for m
  proof -
    have r: "map_of (rev (op # ops)) m
        = (case map_of (rev ops) m of Some x \<Rightarrow> Some x | None \<Rightarrow> (if m = n then Some b else None))"
      by (simp add: op map_add_def split: option.splits)
    have f: "map_of ?fs1 (chunkPath ?d m) = (if m = n then Some (File b) else map_of fs (chunkPath ?d m))"
      using chunkPath_inj [OF c, of m n] by (auto simp: update_conv')
    have ih: "map_of (uploadChunks e ?fs1 uploadId ops) (chunkPath ?d m)
        = (case map_of (rev ops) m of
             Some b \<Rightarrow> Some (File b)
           | None \<Rightarrow> map_of ?fs1 (chunkPath ?d m))"
      using IH by blast
    show ?thesis
    proof (cases "map_of (rev ops) m")
      case None
      then show ?thesis unfolding u ih r f by simp
    next
      case (Some x)
      then show ?thesis unfolding u ih r by simp
    qed
  qed
  have b: "map_of (uploadChunks e fs uploadId (op # ops)) p = map_of fs p"
    if "\<forall>k \<in> fst ` set (op # ops). p \<noteq> chunkPath ?d k" for p
  proof -
    from that have "p \<noteq> chunkPath ?d n" and "\<forall>k \<in> fst ` set ops. p \<noteq> chunkPath ?d k"
      by (simp_all add: op)
    then show ?thesis unfolding u using IH by (simp add: update_conv')
  qed
  from a b show ?case by blast
qed

text \<open>The assembly loop, when every part file it needs is present and none is the
  destination: it appends the parts in the order of the loop.\<close>

lemma assembleParts_concat:
  "\<forall>n \<in> set ns. map_of fs (chunkPath d n) = Some (File (g n))
   \<Longrightarrow> \<forall>n \<in> set ns. destPath \<noteq> chunkPath d n
   \<Longrightarrow> map_of fs destPath = Some (File acc)
   \<Longrightarrow> \<exists>fs'. assembleParts fs d destPath ns = Inr fs'
          \<and> map_of fs' destPath = Some (File (acc @ concat (map g ns)))
          \<and> (\<forall>p. p \<noteq> destPath \<longrightarrow> map_of fs' p = map_of fs p)"
proof (induction ns arbitrary: fs acc)
  case Nil
  then show ?case by simp
next
  case (Cons n ns)
  let ?fs1 = "appendFile fs destPath (g n)"
  have rd: "readFile fs (chunkPath d n) = Some (g n)"
    using Cons.prems(1) by (simp add: readFile_def)
  have ap: "?fs1 = AList.update destPath (File (acc @ g n)) fs"
    using Cons.prems(3) by (simp add: appendFile_def)
  have 1: "\<forall>k \<in> set ns. map_of ?fs1 (chunkPath d k) = Some (File (g k))"
    using Cons.prems(1,2) by (auto simp: ap update_conv')
  have 2: "\<forall>k \<in> set ns. destPath \<noteq> chunkPath d k"
    using Cons.prems(2) by simp
  have 3: "map_of ?fs1 destPath = Some (File (acc @ g n))"
    by (simp add: ap update_conv')
  from Cons.IH [OF 1 2 3] obtain fs' where
    r: "assembleParts ?fs1 d destPath ns = Inr fs'"
      "map_of fs' destPath = Some (File ((acc @ g n) @ concat (map g ns)))"
      "\<forall>p. p \<noteq> destPath \<longrightarrow> map_of fs' p = map_of ?fs1 p"
    by blast
  have "assembleParts fs d destPath (n # ns) = Inr fs'"
    using rd r(1) by simp
  moreover have "map_of fs' destPath = Some (File (acc @ concat (map g (n # ns))))"
    using r(2) by simp
  moreover have "\<forall>p. p \<noteq> destPath \<longrightarrow> map_of fs' p = map_of fs p"
    using r(3) by (simp add: ap update_conv')
  ultimately show ?case by blast
qed

lemma map_of_rmRecursive:
  "\<not> isUnder d p \<Longrightarrow> map_of (rmRecursive fs d) p = map_of fs p"
  unfolding rmRecursive_def by (induction fs) auto

section \<open>Properties of the share registry\<close>













section \<open>The joined path of an accepted request lies outside the trash directory\<close>

lemma foldl_normStep_plain:
  "\<forall>s \<in> set xs. s \<noteq> [] \<and> s \<noteq> ''.'' \<and> s \<noteq> ''..''
   \<Longrightarrow> foldl (normStep a) acc xs = acc @ xs"
  by (induction xs arbitrary: acc) (simp_all add: normStep_def)

lemma normStep_skip: "normStep a acc [] = acc" "normStep a acc ''.'' = acc"
  by (simp_all add: normStep_def)

lemma splitOn_joined_tail:
  assumes "ks \<noteq> []" "\<forall>s \<in> set ks. slash \<notin> set s"
  shows "splitOn slash (joinWith slash ks @ ''/'') = ks @ [[]]"
    and "splitOn slash (joinWith slash ks @ ''//'') = ks @ [[], []]"
proof -
  have j: "splitOn slash (joinWith slash ks) = ks"
    using assms by (simp add: splitOn_join)
  show "splitOn slash (joinWith slash ks @ ''/'') = ks @ [[]]"
    using splitOn_append [of slash "joinWith slash ks" "[]"] j by simp
  show "splitOn slash (joinWith slash ks @ ''//'') = ks @ [[], []]"
    using splitOn_append [of slash "joinWith slash ks" "''/''"] j by simp
qed

text \<open>\<open>path.resolve(root, "." + path)\<close> for a canonical root and a normalized request path:
  the segments of the root followed by those of the path.\<close>

lemma posix_resolve_joined:
  assumes root: "rootReal = ''/'' @ joinWith slash rs"
    and rs: "normSegs False (splitOn slash rootReal) = rs"
    and ks: "\<forall>s \<in> set ks. s \<noteq> [] \<and> s \<noteq> ''.'' \<and> s \<noteq> ''..'' \<and> slash \<notin> set s"
    and n: "n = ''/'' @ joinWith slash ks @ (if ks \<noteq> [] \<and> b then ''/'' else [])"
  shows "posix_resolve c [rootReal, ''.'' @ n] = ''/'' @ joinWith slash (rs @ ks)"
proof -
  let ?tail = "''.'' @ n @ ''/''"
  have rne: "rootReal \<noteq> []" and rhd: "hd rootReal = slash" using root by simp_all
  have loop: "resolveLoop (rev (c # [rootReal, ''.'' @ n])) [] = (rootReal @ slash # ?tail, True)"
    using rne rhd by simp
  have sp: "splitOn slash (rootReal @ slash # ?tail) = splitOn slash rootReal @ splitOn slash ?tail"
    by (rule splitOn_append)
  have ksf: "\<forall>s \<in> set ks. slash \<notin> set s" using ks by blast
  have ksp: "\<forall>s \<in> set ks. s \<noteq> [] \<and> s \<noteq> ''.'' \<and> s \<noteq> ''..''" using ks by blast
  have tail: "foldl (normStep False) acc (splitOn slash ?tail) = acc @ ks" for acc
  proof (cases "ks = []")
    case True
    then have "?tail = ''.//''" using n by simp
    then have "splitOn slash ?tail = [''.'', [], []]" by simp
    then show ?thesis using True by (simp add: normStep_skip)
  next
    case False
    show ?thesis
    proof (cases b)
      case True
      then have "?tail = ''.'' @ slash # (joinWith slash ks @ ''//'')" using n False by simp
      then have "splitOn slash ?tail = ''.'' # (ks @ [[], []])"
        using splitOn_sep_append [of slash "''.''" "joinWith slash ks @ ''//''"]
          splitOn_joined_tail(2) [OF False ksf] by simp
      then show ?thesis using foldl_normStep_plain [OF ksp] by (simp add: normStep_skip)
    next
      case b: False
      then have "?tail = ''.'' @ slash # (joinWith slash ks @ ''/'')" using n by simp
      then have "splitOn slash ?tail = ''.'' # (ks @ [[]])"
        using splitOn_sep_append [of slash "''.''" "joinWith slash ks @ ''/''"]
          splitOn_joined_tail(1) [OF False ksf] by simp
      then show ?thesis using foldl_normStep_plain [OF ksp] by (simp add: normStep_skip)
    qed
  qed
  have "normSegs False (splitOn slash (rootReal @ slash # ?tail)) = rs @ ks"
    unfolding sp using tail [of rs] rs by (simp add: normSegs_def)
  then have "normalizeString (rootReal @ slash # ?tail) False = joinWith slash (rs @ ks)"
    by (simp add: normalizeString_def)
  then show ?thesis
    unfolding posix_resolve_def loop by (simp add: Let_def)
qed

lemma isUnder_segments:
  assumes A: "A \<noteq> []" "\<forall>s \<in> set A. s \<noteq> [] \<and> slash \<notin> set s"
    and B: "\<forall>s \<in> set B. slash \<notin> set s"
    and u: "isUnder (''/'' @ joinWith slash A) (''/'' @ joinWith slash B)"
  shows "prefix A B"
proof -
  have jA: "splitOn slash (joinWith slash A) = A" using A by (simp add: splitOn_join)
  have neA: "joinWith slash A \<noteq> []"
  proof
    assume "joinWith slash A = []"
    then have "A = [[]]" using A(1) by (simp add: joinWith_Nil_iff)
    then show False using A(2) by simp
  qed
  from u have "joinWith slash B = joinWith slash A
      \<or> prefix (joinWith slash A @ ''/'') (joinWith slash B)"
    by (simp add: isUnder_def)
  then obtain rest where r: "joinWith slash B = joinWith slash A \<or> joinWith slash B = joinWith slash A @ slash # rest"
    by (auto simp: prefix_def)
  then have neB: "B \<noteq> []" using neA by (cases B) auto
  then have jB: "splitOn slash (joinWith slash B) = B" using B by (simp add: splitOn_join)
  from r show ?thesis
  proof
    assume "joinWith slash B = joinWith slash A"
    then show ?thesis using jA jB by simp
  next
    assume "joinWith slash B = joinWith slash A @ slash # rest"
    then have "B = A @ splitOn slash rest"
      using jA jB splitOn_append [of slash "joinWith slash A" rest] by simp
    then show ?thesis by simp
  qed
qed

section \<open>The path normalizer\<close>

text \<open>
  What the normalizer does for every input. The result starts with \<open>/\<close>, holds no backslash,
  and none of its segments is \<open>.\<close> or \<open>..\<close>: it is \<open>/\<close> followed by the kept segments, each
  non-empty and free of separators, joined by single separators. One trailing separator is kept
  after the last segment exactly when the cleaned input ends with a separator.
\<close>

lemma normalizeRequestPath_shape:
  fixes input
  defines "r \<equiv> normalizeRequestPath input"
  shows "prefix ''/'' r
       \<and> backslash \<notin> set r
       \<and> (\<forall>seg \<in> set (splitOn slash r). seg \<noteq> ''.'' \<and> seg \<noteq> ''..'')
       \<and> (\<exists>segs. (\<forall>s \<in> set segs. s \<noteq> [] \<and> s \<noteq> ''.'' \<and> s \<noteq> ''..'' \<and> slash \<notin> set s)
             \<and> r = ''/'' @ joinWith slash segs
                      @ (if segs \<noteq> [] \<and> last (requestRaw input) = slash then ''/'' else []))
       \<and> (last r = slash \<longleftrightarrow> r = ''/'' \<or> last (requestRaw input) = slash)"
proof -
  define ks where "ks = normSegs False (splitOn slash (requestRaw input))"
  have seg: "\<forall>s \<in> set ks. s \<noteq> [] \<and> s \<noteq> ''.'' \<and> s \<noteq> ''..'' \<and> slash \<notin> set s \<and> backslash \<notin> set s"
    unfolding ks_def by (rule normalizeRequestPath_segments)
  have r: "r = ''/'' @ joinWith slash ks @ (if ks \<noteq> [] \<and> last (requestRaw input) = slash then ''/'' else [])"
    by (simp add: r_def normalizeRequestPath_unfold ks_def Let_def)
  have 1: "prefix ''/'' r" by (simp add: r)
  have "set (joinWith slash ks) \<subseteq> insert slash (\<Union> (set ` set ks))" by (rule joinWith_chars)
  then have "backslash \<notin> set (joinWith slash ks)" using seg by auto
  then have 2: "backslash \<notin> set r" by (simp add: r)
  have "set (splitOn slash r) \<subseteq> insert [] (set ks)"
    unfolding r by (rule set_splitOn_rooted) (use seg in blast)
  then have 3: "\<forall>seg \<in> set (splitOn slash r). seg \<noteq> ''.'' \<and> seg \<noteq> ''..''"
    using seg by auto
  have 4: "\<exists>segs. (\<forall>s \<in> set segs. s \<noteq> [] \<and> s \<noteq> ''.'' \<and> s \<noteq> ''..'' \<and> slash \<notin> set s)
             \<and> r = ''/'' @ joinWith slash segs
                      @ (if segs \<noteq> [] \<and> last (requestRaw input) = slash then ''/'' else [])"
    using seg r by blast
  have 5: "last r = slash \<longleftrightarrow> r = ''/'' \<or> last (requestRaw input) = slash"
  proof (cases "ks = []")
    case True
    then have "r = ''/''" unfolding r by simp
    then show ?thesis by simp
  next
    case False
    have ne: "joinWith slash ks \<noteq> []"
    proof
      assume "joinWith slash ks = []"
      then have "ks = [[]]" using False by (simp add: joinWith_Nil_iff)
      then have "[] \<in> set ks" by simp
      with seg show False by blast
    qed
    have "last ks \<in> set ks" using False by simp
    then have lk: "last ks \<noteq> []" "slash \<notin> set (last ks)" using seg by auto
    then have "last (last ks) \<noteq> slash" by (rule last_not_sep)
    then have lj: "last (joinWith slash ks) \<noteq> slash" using False lk by (simp add: joinWith_last)
    show ?thesis
    proof (cases "last (requestRaw input) = slash")
      case True
      then have "r = ''/'' @ joinWith slash ks @ ''/''" unfolding r using False by simp
      then have "last r = slash" by simp
      then show ?thesis using True by simp
    next
      case nt: False
      then have rr: "r = slash # joinWith slash ks" unfolding r by simp
      then have "last r = last (joinWith slash ks)" using ne by simp
      moreover have "r \<noteq> ''/''" using rr ne by simp
      ultimately show ?thesis using lj nt by simp
    qed
  qed
  show ?thesis
    by (rule conjI [OF 1 conjI [OF 2 conjI [OF 3 conjI [OF 4 5]]]])
qed

text \<open>
  Claim C4 fails on the code in its last part. \<open>path.posix.normalize\<close> keeps one trailing
  separator, and \<open>normalizeRequestPath\<close> returns its answer as it is: the request path \<open>/a/\<close>
  comes back as \<open>/a/\<close>, a path other than the root that ends with a slash. The other parts of
  the claim hold at the same inputs: backslashes become slashes, \<open>.\<close>, \<open>..\<close> and doubled
  separators are collapsed, and \<open>..\<close> segments in excess are absorbed at the root.
\<close>

theorem normalizeRequestPath_keeps_trailing_slash:
  "normalizeRequestPath (Some ''/a/'') = ''/a/''
   \<and> normalizeRequestPath (Some ''/a/'') \<noteq> ''/''
   \<and> last (normalizeRequestPath (Some ''/a/'')) = slash
   \<and> normalizeRequestPath (Some ''/a'') = ''/a''
   \<and> normalizeRequestPath (Some (''docs'' @ [backslash] @ ''.'' @ [backslash] @ ''a''
          @ [backslash] @ ''..'' @ [backslash] @ ''b//c/'')) = ''/docs/b/c/''
   \<and> normalizeRequestPath (Some ''../../x/'') = ''/x/''"
proof -
  have 1: "normalizeRequestPath (Some ''/a/'') = ''/a/''"
    by code_simp
  have 2: "normalizeRequestPath (Some ''/a'') = ''/a''"
    by code_simp
  have 3: "normalizeRequestPath (Some (''docs'' @ [backslash] @ ''.'' @ [backslash] @ ''a''
          @ [backslash] @ ''..'' @ [backslash] @ ''b//c/'')) = ''/docs/b/c/''"
    by code_simp
  have 4: "normalizeRequestPath (Some ''../../x/'') = ''/x/''"
    by code_simp
  show ?thesis using 2 3 4 by (simp add: 1)
qed

section \<open>Confinement to the root\<close>

lemma isWithinRoot_iff:
  "isWithinRoot candidate rootReal \<longleftrightarrow>
     candidate = rootReal
     \<or> prefix (if suffix ''/'' rootReal then rootReal else rootReal @ ''/'') candidate"
  by (simp add: isWithinRoot_def Let_def)

lemma resolveSafePath_Inr:
  assumes "resolveSafePath e requestPath rootReal = Inr r"
  shows "normalized r = normalizeRequestPath (Some requestPath)"
    and "normalized r \<noteq> ''/.trash''" and "\<not> prefix ''/.trash/'' (normalized r)"
    and "realpath e (posix_resolve (cwd e) [rootReal, ''.'' @ normalized r]) = Some (fullPath r)"
    and "isWithinRoot (fullPath r) rootReal"
  using assms
  by (auto simp: resolveSafePath_def Let_def split: if_splits option.splits)

text \<open>
  Claim C1. Whenever \<open>resolveSafePath\<close> succeeds, the location it returns is what
  \<open>fs.realpath\<close> answered for the joined path (symbolic links are followed before the check),
  and that location is the root itself or begins with the root followed by the separator
  (a root that already ends with the separator, the file system root, is not given a second
  one). In S3 mode every key built by \<open>toS3Key\<close> begins with the root prefix.
\<close>

theorem resolveSafePath_confined:
  "(resolveSafePath e requestPath rootReal = Inr r \<longrightarrow>
      realpath e (posix_resolve (cwd e) [rootReal, ''.'' @ normalizeRequestPath (Some requestPath)])
        = Some (fullPath r)
      \<and> (fullPath r = rootReal
           \<or> prefix (if suffix ''/'' rootReal then rootReal else rootReal @ ''/'') (fullPath r)))
   \<and> prefix rootPfx (toS3Key rootPfx normalizedPath)"
proof -
  have "prefix rootPfx (toS3Key rootPfx normalizedPath)"
    by (simp add: toS3Key_def)
  moreover have "resolveSafePath e requestPath rootReal = Inr r \<Longrightarrow>
      realpath e (posix_resolve (cwd e) [rootReal, ''.'' @ normalizeRequestPath (Some requestPath)])
        = Some (fullPath r)"
    using resolveSafePath_Inr(1,4) by metis
  moreover have "resolveSafePath e requestPath rootReal = Inr r \<Longrightarrow>
      fullPath r = rootReal
      \<or> prefix (if suffix ''/'' rootReal then rootReal else rootReal @ ''/'') (fullPath r)"
    using resolveSafePath_Inr(5) isWithinRoot_iff by blast
  ultimately show ?thesis by blast
qed

theorem resolveSafePath_confined_witness:
  "resolveSafePath exampleEnv ''/docs/../a'' ''/srv/data''
     = Inr \<lparr>normalized = ''/a'', fullPath = ''/srv/data/a''\<rparr>
   \<and> prefix ''/srv/data/'' ''/srv/data/a''
   \<and> prefix ''users/ann/'' (toS3Key ''users/ann/'' ''/a'')"
proof -
  have e: "resolveSafePath exampleEnv ''/docs/../a'' ''/srv/data''
     = Inr \<lparr>normalized = ''/a'', fullPath = ''/srv/data/a''\<rparr>"
    by code_simp
  have "\<not> suffix ''/'' ''/srv/data''" by (simp add: suffix_def)
  then have "prefix ''/srv/data/'' (fullPath \<lparr>normalized = ''/a'', fullPath = ''/srv/data/a''\<rparr>)
      \<and> prefix ''users/ann/'' (toS3Key ''users/ann/'' ''/a'')"
    using resolveSafePath_confined [of exampleEnv "''/docs/../a''" "''/srv/data''"
        "\<lparr>normalized = ''/a'', fullPath = ''/srv/data/a''\<rparr>" "''users/ann/''" "''/a''"] e
    by auto
  then show ?thesis using e by simp
qed

section \<open>The trash subtree\<close>

text \<open>In local mode, an accepted path whose joined location \<open>path.resolve(root, "." + path)\<close>
  is its own \<open>realpath\<close> (no symbolic link on the way) is outside the trash directory.\<close>

lemma resolveSafePath_outside_trash:
  assumes c: "isCanonical rootReal"
    and r: "resolveSafePath e p rootReal = Inr lr"
    and same: "fullPath lr = posix_resolve (cwd e) [rootReal, ''.'' @ normalized lr]"
  shows "\<not> isUnder (fst (getTrashPaths rootReal)) (fullPath lr)"
proof
  assume u: "isUnder (fst (getTrashPaths rootReal)) (fullPath lr)"
  define rs where "rs = normSegs False (splitOn slash rootReal)"
  define ks where "ks = normSegs False (splitOn slash (requestRaw (Some p)))"
  define n where "n = normalizeRequestPath (Some p)"
  have root: "rootReal = ''/'' @ joinWith slash rs"
    using isCanonical_form [OF c] by (simp add: rs_def)
  have rsp: "\<forall>s \<in> set rs. s \<noteq> [] \<and> slash \<notin> set s"
    using normSegs_False_slashfree [of _ rootReal] by (auto simp: rs_def)
  have ksp: "\<forall>s \<in> set ks. s \<noteq> [] \<and> s \<noteq> ''.'' \<and> s \<noteq> ''..'' \<and> slash \<notin> set s"
    using normSegs_False_slashfree [of _ "requestRaw (Some p)"] by (auto simp: ks_def)
  have nform: "n = ''/'' @ joinWith slash ks
      @ (if ks \<noteq> [] \<and> last (requestRaw (Some p)) = slash then ''/'' else [])"
    by (simp add: n_def normalizeRequestPath_unfold ks_def Let_def)
  have nl: "normalized lr = n" and n1: "n \<noteq> ''/.trash''" and n2: "\<not> prefix ''/.trash/'' n"
    using resolveSafePath_Inr(1,2,3) [OF r] by (simp_all add: n_def)
  have full: "fullPath lr = ''/'' @ joinWith slash (rs @ ks)"
    unfolding same nl
    by (rule posix_resolve_joined [OF root rs_def [symmetric] ksp nform])
  have td: "fst (getTrashPaths rootReal) = childPath rootReal ''.trash''"
    using posix_join_child [OF c, of "''.trash''"] by (simp add: getTrashPaths_def Let_def)
  have td': "childPath rootReal ''.trash'' = ''/'' @ joinWith slash (rs @ [''.trash''])"
  proof (cases "rs = []")
    case True
    then show ?thesis using root by (simp add: childPath_def)
  next
    case False
    then have "joinWith slash rs \<noteq> []" using rsp by (auto simp: joinWith_Nil_iff)
    then have "rootReal \<noteq> ''/''" using root by simp
    then show ?thesis using root False by (simp add: childPath_def joinWith_snoc)
  qed
  have "prefix (rs @ [''.trash'']) (rs @ ks)"
  proof (rule isUnder_segments)
    show "rs @ [''.trash''] \<noteq> []" by simp
    show "\<forall>s \<in> set (rs @ [''.trash'']). s \<noteq> [] \<and> slash \<notin> set s" using rsp by auto
    show "\<forall>s \<in> set (rs @ ks). slash \<notin> set s" using rsp ksp by auto
    show "isUnder (''/'' @ joinWith slash (rs @ [''.trash''])) (''/'' @ joinWith slash (rs @ ks))"
      using u unfolding td td' full .
  qed
  then have "prefix [''.trash''] ks" by simp
  then obtain ks' where k: "ks = ''.trash'' # ks'" by (auto simp: prefix_def)
  show False
  proof (cases ks')
    case Nil
    then have "n = ''/.trash'' \<or> n = ''/.trash/''" using nform k by auto
    then show False using n1 n2 by auto
  next
    case (Cons x xs)
    then have "n = ''/.trash/'' @ joinWith slash (x # xs)
        @ (if last (requestRaw (Some p)) = slash then ''/'' else [])"
      using nform k by simp
    then have "prefix ''/.trash/'' n" by simp
    then show False using n2 by simp
  qed
qed

text \<open>
  The rule of \<open>resolveSafePath\<close> reads the normalized virtual path only. A path that is not
  under \<open>/.trash\<close> but leads through a symbolic link into the trash directory is accepted,
  with a location inside the trash subtree.
\<close>

lemma trash_via_symlink:
  "resolveSafePath exampleEnv ''/link'' ''/srv/data''
     = Inr \<lparr>normalized = ''/link'', fullPath = ''/srv/data/.trash/1-x-u''\<rparr>
   \<and> fst (getTrashPaths ''/srv/data'') = ''/srv/data/.trash''
   \<and> prefix (''/srv/data/.trash'' @ ''/'') ''/srv/data/.trash/1-x-u''"
proof -
  have a: "resolveSafePath exampleEnv ''/link'' ''/srv/data''
     = Inr \<lparr>normalized = ''/link'', fullPath = ''/srv/data/.trash/1-x-u''\<rparr>"
    by code_simp
  have "posix_join [''/srv/data'', ''.trash''] = ''/srv/data/.trash''"
    by code_simp
  then have b: "fst (getTrashPaths ''/srv/data'') = ''/srv/data/.trash''"
    by (simp add: getTrashPaths_def Let_def)
  have c: "prefix (''/srv/data/.trash'' @ ''/'') ''/srv/data/.trash/1-x-u''"
    by simp
  from a b c show ?thesis by blast
qed

text \<open>
  The lexical rule. Every path that normalizes to \<open>/.trash\<close> or to a path under \<open>/.trash/\<close>
  is rejected by both resolvers with the \<open>Path not allowed\<close> failure, and by both destination
  resolvers as an invalid destination. In S3 mode the key of a path that \<open>resolveSafeS3Path\<close>
  accepts is neither the trash entry nor under the trash prefix; in local mode the location of
  a path that \<open>resolveSafePath\<close> accepts is outside the trash directory whenever \<open>realpath\<close>
  leaves the joined path unchanged.
\<close>

lemma trash_paths_rejected:
  "((normalizeRequestPath (Some p) = ''/.trash'' \<or> prefix ''/.trash/'' (normalizeRequestPath (Some p)))
      \<longrightarrow> resolveSafePath e p rootReal = Inl PathNotAllowed
        \<and> resolveSafeS3Path p rootPfx = Inl PathNotAllowed
        \<and> resolveDestinationPath e p rootReal = Inr None
        \<and> resolveDestinationPathS3 p = None)
   \<and> (resolveSafeS3Path p rootPfx = Inr r
      \<longrightarrow> toS3Key rootPfx (s3normalized r) \<noteq> rootPfx @ ''.trash''
        \<and> \<not> prefix (fst (getTrashPrefixesS3 rootPfx)) (toS3Key rootPfx (s3normalized r)))
   \<and> (isCanonical rootReal \<and> resolveSafePath e p rootReal = Inr lr
        \<and> fullPath lr = posix_resolve (cwd e) [rootReal, ''.'' @ normalized lr]
      \<longrightarrow> \<not> isUnder (fst (getTrashPaths rootReal)) (fullPath lr))"
proof -
  define n where "n = normalizeRequestPath (Some p)"
  obtain t where nt: "n = slash # t"
    using normalizeRequestPath_rooted [of "Some p"] by (auto simp: n_def)
  have rej: "resolveSafePath e p rootReal = Inl PathNotAllowed
        \<and> resolveSafeS3Path p rootPfx = Inl PathNotAllowed
        \<and> resolveDestinationPath e p rootReal = Inr None
        \<and> resolveDestinationPathS3 p = None"
    if h: "n = ''/.trash'' \<or> prefix ''/.trash/'' n"
  proof -
    from h have "prefix ''/.trash'' n" by (auto simp: prefix_def)
    with h show ?thesis
      unfolding resolveSafePath_def resolveSafeS3Path_def resolveDestinationPath_def
        resolveDestinationPathS3_def n_def [symmetric] Let_def
      by simp
  qed
  have acc: "toS3Key rootPfx (s3normalized r) \<noteq> rootPfx @ ''.trash''
        \<and> \<not> prefix (fst (getTrashPrefixesS3 rootPfx)) (toS3Key rootPfx (s3normalized r))"
    if h: "resolveSafeS3Path p rootPfx = Inr r"
  proof -
    from h have r: "s3normalized r = n" and n1: "n \<noteq> ''/.trash''" and n2: "\<not> prefix ''/.trash/'' n"
      unfolding resolveSafeS3Path_def n_def [symmetric] Let_def
      by (auto split: if_splits)
    have t1: "t \<noteq> ''.trash''" using n1 nt by simp
    have t2: "\<not> prefix ''.trash/'' t" using n2 nt by simp
    have key: "toS3Key rootPfx n = rootPfx @ t"
      using nt by (simp add: toS3Key_def)
    have "rootPfx @ t \<noteq> rootPfx @ ''.trash''" using t1 by simp
    moreover have "\<not> prefix (rootPfx @ ''.trash/'') (rootPfx @ t)" using t2 by simp
    ultimately show ?thesis by (simp add: r key getTrashPrefixesS3_def Let_def)
  qed
  have loc: "\<not> isUnder (fst (getTrashPaths rootReal)) (fullPath lr)"
    if h: "isCanonical rootReal \<and> resolveSafePath e p rootReal = Inr lr
        \<and> fullPath lr = posix_resolve (cwd e) [rootReal, ''.'' @ normalized lr]"
  proof -
    from h have c: "isCanonical rootReal" and r: "resolveSafePath e p rootReal = Inr lr"
      and same: "fullPath lr = posix_resolve (cwd e) [rootReal, ''.'' @ normalized lr]"
      by simp_all
    show ?thesis by (rule resolveSafePath_outside_trash [OF c r same])
  qed
  have i1: "(normalizeRequestPath (Some p) = ''/.trash'' \<or> prefix ''/.trash/'' (normalizeRequestPath (Some p)))
      \<longrightarrow> resolveSafePath e p rootReal = Inl PathNotAllowed
        \<and> resolveSafeS3Path p rootPfx = Inl PathNotAllowed
        \<and> resolveDestinationPath e p rootReal = Inr None
        \<and> resolveDestinationPathS3 p = None"
    unfolding n_def [symmetric] by (rule impI) (rule rej)
  have i2: "resolveSafeS3Path p rootPfx = Inr r
      \<longrightarrow> toS3Key rootPfx (s3normalized r) \<noteq> rootPfx @ ''.trash''
        \<and> \<not> prefix (fst (getTrashPrefixesS3 rootPfx)) (toS3Key rootPfx (s3normalized r))"
    by (rule impI) (rule acc)
  have i3: "isCanonical rootReal \<and> resolveSafePath e p rootReal = Inr lr
        \<and> fullPath lr = posix_resolve (cwd e) [rootReal, ''.'' @ normalized lr]
      \<longrightarrow> \<not> isUnder (fst (getTrashPaths rootReal)) (fullPath lr)"
    by (rule impI) (rule loc)
  show ?thesis by (rule conjI [OF i1 conjI [OF i2 i3]])
qed

text \<open>
  Claim C5 fails on the code in local mode. \<open>resolveDestinationPath\<close> tests the normalized
  path against \<open>/.trash\<close> and only then cleans the last segment with \<open>sanitizeName\<close>, which
  trims it: the destination \<open>/ .trash\<close>, with a blank before the name, passes the test and
  resolves to the trash directory itself, with no symbolic link involved. A move to that
  destination renames the source onto the trash directory. The same destination written
  \<open>/.trash\<close> is refused, and \<open>resolveDestinationPathS3\<close> keeps the normalized path, whose key
  is not the trash entry.
\<close>

theorem trash_directory_reached_as_destination:
  "normalizeRequestPath (Some ''/ .trash'') = ''/ .trash''
   \<and> resolveDestinationPath exampleEnv ''/ .trash'' ''/srv/data''
       = Inr (Some \<lparr>normalized = ''/ .trash'', fullPath = ''/srv/data/.trash''\<rparr>)
   \<and> fst (getTrashPaths ''/srv/data'') = ''/srv/data/.trash''
   \<and> apiMove exampleEnv ReadWrite ''/srv/data'' exampleMoveFs ''/a'' ''/ .trash''
       = (Json (), [(''/srv/data'', Dir), (''/srv/data/.trash'', Dir),
                    (''/srv/data/.trash/b'', File ''x'')])
   \<and> resolveDestinationPath exampleEnv ''/.trash'' ''/srv/data'' = Inr None
   \<and> resolveDestinationPathS3 ''/ .trash'' = Some ''/ .trash''
   \<and> toS3Key ''users/ann/'' ''/ .trash'' = ''users/ann/ .trash''"
proof -
  have 1: "normalizeRequestPath (Some ''/ .trash'') = ''/ .trash''"
    by code_simp
  have 2: "resolveDestinationPath exampleEnv ''/ .trash'' ''/srv/data''
       = Inr (Some \<lparr>normalized = ''/ .trash'', fullPath = ''/srv/data/.trash''\<rparr>)"
    by code_simp
  have "posix_join [''/srv/data'', ''.trash''] = ''/srv/data/.trash''"
    by code_simp
  then have 3: "fst (getTrashPaths ''/srv/data'') = ''/srv/data/.trash''"
    by (simp add: getTrashPaths_def Let_def)
  have 4: "apiMove exampleEnv ReadWrite ''/srv/data'' exampleMoveFs ''/a'' ''/ .trash''
       = (Json (), [(''/srv/data'', Dir), (''/srv/data/.trash'', Dir),
                    (''/srv/data/.trash/b'', File ''x'')])"
    by code_simp
  have 5: "resolveDestinationPath exampleEnv ''/.trash'' ''/srv/data'' = Inr None"
    by code_simp
  have 6: "resolveDestinationPathS3 ''/ .trash'' = Some ''/ .trash''"
    by code_simp
  have 7: "toS3Key ''users/ann/'' ''/ .trash'' = ''users/ann/ .trash''"
    by code_simp
  show ?thesis
    by (rule conjI [OF 1 conjI [OF 2 conjI [OF 3 conjI [OF 4 conjI [OF 5 conjI [OF 6 7]]]]]])
qed

section \<open>Sanitized names are single segments\<close>

text \<open>
  Claim C10. \<open>sanitizeName\<close> returns \<open>null\<close> exactly when the trimmed input with its NUL
  characters removed is empty, contains \<open>/\<close> or a backslash, or is \<open>.\<close> or \<open>..\<close>, and
  returns that string otherwise. A name it accepts is one path segment: joined to the resolved
  parent location by \<open>path.join\<close> (as the mkdir, upload and chunked-upload handlers do) it
  yields the entry of that name directly inside the parent. The trash handler's target is,
  in the same way, the entry named \<open>trashName\<close> directly inside the trash directory.
\<close>

theorem sanitizeName_single_segment:
  "sanitizeName v =
     (let t = stripNul (trim v)
      in if t = [] \<or> slash \<in> set t \<or> backslash \<in> set t \<or> t = ''.'' \<or> t = ''..'' then None
         else Some t)
   \<and> (sanitizeName v = Some n \<and> isCanonical parent
      \<longrightarrow> posix_join [parent, n] = childPath parent n
        \<and> posix_dirname (posix_join [parent, n]) = parent
        \<and> posix_basename (posix_join [parent, n]) = n)
   \<and> (isCanonical rootReal \<and> slash \<notin> set uuid
      \<longrightarrow> posix_dirname (trashPath rootReal now fullPth uuid) = fst (getTrashPaths rootReal)
        \<and> posix_basename (trashPath rootReal now fullPth uuid)
            = trashName now (trashFileName fullPth) uuid)"
proof -
  have 1: "sanitizeName v =
     (let t = stripNul (trim v)
      in if t = [] \<or> slash \<in> set t \<or> backslash \<in> set t \<or> t = ''.'' \<or> t = ''..'' then None
         else Some t)"
    by (simp add: sanitizeName_def Let_def)
  have child: "posix_join [d, m] = childPath d m
        \<and> posix_dirname (posix_join [d, m]) = d
        \<and> posix_basename (posix_join [d, m]) = m"
    if c: "isCanonical d" and m: "m \<noteq> []" "m \<noteq> ''.''" "m \<noteq> ''..''" "slash \<notin> set m"
    for d m
  proof -
    have j: "posix_join [d, m] = childPath d m" by (rule posix_join_child [OF c m])
    have dn: "posix_dirname (childPath d m) = d"
      using m(1,4) isCanonical_rooted [OF c] by (rule posix_dirname_child)
    have "childPath d m = (if d = ''/'' then [] else d) @ slash # m"
      by (simp add: childPath_def)
    then have bn: "posix_basename (childPath d m) = m"
      using posix_basename_child [OF m(1,4)] by simp
    from j dn bn show ?thesis by simp
  qed
  have 2: "posix_join [parent, n] = childPath parent n
        \<and> posix_dirname (posix_join [parent, n]) = parent
        \<and> posix_basename (posix_join [parent, n]) = n"
    if h: "sanitizeName v = Some n \<and> isCanonical parent"
  proof -
    from h have s: "sanitizeName v = Some n" and c: "isCanonical parent" by simp_all
    show ?thesis by (rule child [OF c sanitizeName_Some(2,5,6,3) [OF s]])
  qed
  have 3: "posix_dirname (trashPath rootReal now fullPth uuid) = fst (getTrashPaths rootReal)
        \<and> posix_basename (trashPath rootReal now fullPth uuid)
            = trashName now (trashFileName fullPth) uuid"
    if h: "isCanonical rootReal \<and> slash \<notin> set uuid"
  proof -
    from h have c: "isCanonical rootReal" and u: "slash \<notin> set uuid" by simp_all
    have td: "fst (getTrashPaths rootReal) = childPath rootReal ''.trash''"
      using posix_join_child [OF c, of "''.trash''"] by (simp add: getTrashPaths_def Let_def)
    have ctd: "isCanonical (fst (getTrashPaths rootReal))"
      unfolding td by (rule isCanonical_child [OF c]) simp_all
    have f: "slash \<notin> set (trashFileName fullPth)" using trashFileName_plain by blast
    note tp = trashName_plain [OF f u, of now]
    have "posix_join [fst (getTrashPaths rootReal), trashName now (trashFileName fullPth) uuid]
          = childPath (fst (getTrashPaths rootReal)) (trashName now (trashFileName fullPth) uuid)
        \<and> posix_dirname
            (posix_join [fst (getTrashPaths rootReal), trashName now (trashFileName fullPth) uuid])
          = fst (getTrashPaths rootReal)
        \<and> posix_basename
            (posix_join [fst (getTrashPaths rootReal), trashName now (trashFileName fullPth) uuid])
          = trashName now (trashFileName fullPth) uuid"
      by (rule child [OF ctd tp])
    then show ?thesis unfolding trashPath_def by (elim conjE) (intro conjI)
  qed
  have i2: "sanitizeName v = Some n \<and> isCanonical parent
      \<longrightarrow> posix_join [parent, n] = childPath parent n
        \<and> posix_dirname (posix_join [parent, n]) = parent
        \<and> posix_basename (posix_join [parent, n]) = n"
    by (rule impI) (rule 2)
  have i3: "isCanonical rootReal \<and> slash \<notin> set uuid
      \<longrightarrow> posix_dirname (trashPath rootReal now fullPth uuid) = fst (getTrashPaths rootReal)
        \<and> posix_basename (trashPath rootReal now fullPth uuid)
            = trashName now (trashFileName fullPth) uuid"
    by (rule impI) (rule 3)
  show ?thesis
    by (rule conjI [OF 1 conjI [OF i2 i3]])
qed

theorem sanitizeName_single_segment_witness:
  "sanitizeName '' report.txt '' = Some ''report.txt''
   \<and> isCanonical ''/srv/data''
   \<and> posix_join [''/srv/data'', ''report.txt''] = ''/srv/data/report.txt''
   \<and> posix_dirname (posix_join [''/srv/data'', ''report.txt'']) = ''/srv/data''
   \<and> posix_dirname (trashPath ''/srv/data'' 1700 ''/srv/data/docs/a.txt'' ''u-1'')
        = fst (getTrashPaths ''/srv/data'')"
proof -
  have s: "sanitizeName '' report.txt '' = Some ''report.txt''" by code_simp
  have c: "isCanonical ''/srv/data''" by code_simp
  have j: "posix_join [''/srv/data'', ''report.txt''] = ''/srv/data/report.txt''" by code_simp
  have u: "slash \<notin> set ''u-1''" by simp
  have d: "posix_dirname (posix_join [''/srv/data'', ''report.txt'']) = ''/srv/data''"
    using sanitizeName_single_segment [of "'' report.txt ''" "''report.txt''" "''/srv/data''"] s c
    by blast
  have t: "posix_dirname (trashPath ''/srv/data'' 1700 ''/srv/data/docs/a.txt'' ''u-1'')
        = fst (getTrashPaths ''/srv/data'')"
    using sanitizeName_single_segment [of _ _ _ "''/srv/data''" "''u-1''" 1700 "''/srv/data/docs/a.txt''"] c u
    by blast
  from s c j d t show ?thesis by blast
qed

section \<open>Upload status of an unknown upload\<close>

text \<open>
  Claim C7 as stated fails: for an upload id without upload state the status handler answers
  with the error 404 \<open>Upload not found.\<close>, not with an empty list of parts, in local and in S3
  mode.
\<close>

theorem upload_status_unknown_counterexample:
  "handleLocalUploadStatus exampleEnv exampleUploadFs ''u2'' = Error 404 ''Upload not found.''
   \<and> handleS3UploadStatus exampleS3 ''u2'' ''users/ann/f.bin'' = Error 404 ''Upload not found.''
   \<and> Error 404 ''Upload not found.'' \<noteq> (Json [] :: int list response)"
proof -
  have d: "uploadDir exampleEnv ''u2'' = ''/tmp/bro-fm-uploads/u2''"
    by code_simp
  have "readdir exampleUploadFs ''/tmp/bro-fm-uploads/u2'' = None"
    by (simp add: readdir_def exampleUploadFs_def)
  then have a: "handleLocalUploadStatus exampleEnv exampleUploadFs ''u2''
      = Error 404 ''Upload not found.''"
    by (simp add: handleLocalUploadStatus_def d)
  have "listParts exampleS3 ''users/ann/f.bin'' ''u2'' = Inl S3NotFound"
    by (simp add: listParts_def exampleS3_def)
  then have b: "handleS3UploadStatus exampleS3 ''u2'' ''users/ann/f.bin''
      = Error 404 ''Upload not found.''"
    by (simp add: handleS3UploadStatus_def)
  from a b show ?thesis by simp
qed

text \<open>
  Claim C7, amended. A status query for an upload id whose scratch directory is missing (local
  mode) or whose multipart upload the store does not know (S3 mode) fails with 404
  \<open>Upload not found.\<close>
\<close>

theorem upload_status_unknown_not_found:
  "(map_of fs (uploadDir e uploadId) \<noteq> Some Dir
      \<longrightarrow> handleLocalUploadStatus e fs uploadId = Error 404 ''Upload not found.'')
   \<and> (map_of (uploads st) (key, uploadId) = None
      \<longrightarrow> handleS3UploadStatus st uploadId key = Error 404 ''Upload not found.'')"
  by (simp add: handleLocalUploadStatus_def readdir_def handleS3UploadStatus_def listParts_def
      Let_def)

theorem upload_status_unknown_not_found_witness:
  "map_of exampleUploadFs (uploadDir exampleEnv ''u2'') \<noteq> Some Dir
   \<and> handleLocalUploadStatus exampleEnv exampleUploadFs ''u2'' = Error 404 ''Upload not found.''
   \<and> map_of (uploads exampleS3) (''users/ann/f.bin'', ''u2'') = None
   \<and> handleS3UploadStatus exampleS3 ''u2'' ''users/ann/f.bin'' = Error 404 ''Upload not found.''"
proof -
  have d: "uploadDir exampleEnv ''u2'' = ''/tmp/bro-fm-uploads/u2''"
    by code_simp
  have a: "map_of exampleUploadFs (uploadDir exampleEnv ''u2'') \<noteq> Some Dir"
    unfolding d by (simp add: exampleUploadFs_def)
  have b: "map_of (uploads exampleS3) (''users/ann/f.bin'', ''u2'') = None"
    by (simp add: exampleS3_def)
  from a b
    upload_status_unknown_not_found [of exampleUploadFs exampleEnv "''u2''" exampleS3 "''users/ann/f.bin''"]
  show ?thesis by blast
qed

section \<open>Completing an incomplete upload\<close>

text \<open>The S3 handler counts the listed parts first and answers 409 \<open>Upload incomplete.\<close>
  without touching the store.\<close>

lemma handleS3UploadComplete_incomplete:
  assumes "listParts st key uploadId = Inr listed"
    and "length (filter (\<lambda>(n, p). partETag p \<noteq> [] \<and> n \<noteq> 0) listed) < totalChunks"
  shows "handleS3UploadComplete st uploadId key totalChunks = (Error 409 ''Upload incomplete.'', st)"
  using assms by (simp add: handleS3UploadComplete_def Let_def)

lemma handleLocalUploadComplete_read_fails:
  assumes "readFile fs (posix_join [uploadDir e uploadId, ''meta.json'']) = Some raw"
    and "parseMeta raw = Some meta"
    and "resolveSafePath e (metaPath meta) rootReal = Inr res"
    and "posix_join [fullPath res, metaName meta] = destPath"
    and "isWithinRoot destPath rootReal"
    and "metaOverwrite meta \<or> \<not> pathExists fs destPath"
    and "writeFile fs destPath [] = Some fs1"
    and "assembleParts fs1 (uploadDir e uploadId) destPath [1 ..< Suc totalChunks] = Inl fs2"
  shows "handleLocalUploadComplete e parseMeta rootReal fs uploadId totalChunks
      = (Error 500 ''Failed to assemble upload.'', fs2)"
  using assms by (auto simp: handleLocalUploadComplete_def Let_def)

text \<open>
  Claim C2 on the local handler, at the example session: part 2 of 2 is missing. The handler
  has no count of the parts; it truncates the destination, copies part 1, fails to read part 2
  and answers 500 \<open>Failed to assemble upload.\<close>, leaving the destination with the bytes of
  part 1 in place of its former content. The S3 handler, at the same point, answers 409
  \<open>Upload incomplete.\<close> and leaves the store as it was.
\<close>

theorem local_complete_incomplete_overwrites:
  "fst (handleLocalUploadComplete exampleEnv exampleParseMeta ''/srv/data'' exampleUploadFs ''u1'' 2)
     = Error 500 ''Failed to assemble upload.''
   \<and> map_of exampleUploadFs ''/srv/data/f.bin'' = Some (File ''OLD'')
   \<and> map_of (snd (handleLocalUploadComplete exampleEnv exampleParseMeta ''/srv/data''
                    exampleUploadFs ''u1'' 2)) ''/srv/data/f.bin''
     = Some (File ''AAA'')
   \<and> handleS3UploadComplete exampleS3 ''u1'' ''users/ann/f.bin'' 2
     = (Error 409 ''Upload incomplete.'', exampleS3)"
proof -
  define fs1 where "fs1 = AList.update ''/srv/data/f.bin'' (File []) exampleUploadFs"
  define fs2 where "fs2 = AList.update ''/srv/data/f.bin'' (File ''AAA'') fs1"
  have d: "uploadDir exampleEnv ''u1'' = ''/tmp/bro-fm-uploads/u1''"
    by code_simp
  have m: "posix_join [''/tmp/bro-fm-uploads/u1'', ''meta.json''] = ''/tmp/bro-fm-uploads/u1/meta.json''"
    by code_simp
  have rf: "readFile exampleUploadFs (posix_join [uploadDir exampleEnv ''u1'', ''meta.json'']) = Some ''M''"
    unfolding d m by (simp add: readFile_def exampleUploadFs_def)
  have pm: "exampleParseMeta ''M'' = Some \<lparr>metaPath = ''/'', metaName = ''f.bin'', metaOverwrite = True\<rparr>"
    by (simp add: exampleParseMeta_def)
  have r: "resolveSafePath exampleEnv
        (metaPath \<lparr>metaPath = ''/'', metaName = ''f.bin'', metaOverwrite = True\<rparr>) ''/srv/data''
      = Inr \<lparr>normalized = ''/'', fullPath = ''/srv/data''\<rparr>"
    by code_simp
  have j: "posix_join [fullPath \<lparr>normalized = ''/'', fullPath = ''/srv/data''\<rparr>,
        metaName \<lparr>metaPath = ''/'', metaName = ''f.bin'', metaOverwrite = True\<rparr>] = ''/srv/data/f.bin''"
    by code_simp
  have w: "isWithinRoot ''/srv/data/f.bin'' ''/srv/data''"
    by code_simp
  have ov: "metaOverwrite \<lparr>metaPath = ''/'', metaName = ''f.bin'', metaOverwrite = True\<rparr>
      \<or> \<not> pathExists exampleUploadFs ''/srv/data/f.bin''"
    by simp
  have dn: "posix_dirname ''/srv/data/f.bin'' = ''/srv/data''"
    by code_simp
  have old: "map_of exampleUploadFs ''/srv/data/f.bin'' = Some (File ''OLD'')"
    by (simp add: exampleUploadFs_def)
  have par: "map_of exampleUploadFs ''/srv/data'' = Some Dir"
    by (simp add: exampleUploadFs_def)
  have wf: "writeFile exampleUploadFs ''/srv/data/f.bin'' [] = Some fs1"
    by (simp add: writeFile_def dn old par fs1_def)
  have c1: "chunkPath ''/tmp/bro-fm-uploads/u1'' (Suc 0) = ''/tmp/bro-fm-uploads/u1/1.part''"
    by code_simp
  have c2: "chunkPath ''/tmp/bro-fm-uploads/u1'' 2 = ''/tmp/bro-fm-uploads/u1/2.part''"
    by code_simp
  have p1: "map_of exampleUploadFs ''/tmp/bro-fm-uploads/u1/1.part'' = Some (File ''AAA'')"
    by (simp add: exampleUploadFs_def)
  have p2: "map_of exampleUploadFs ''/tmp/bro-fm-uploads/u1/2.part'' = None"
    by (simp add: exampleUploadFs_def)
  have r1: "readFile fs1 ''/tmp/bro-fm-uploads/u1/1.part'' = Some ''AAA''"
    by (simp add: readFile_def fs1_def update_conv' p1)
  have ap: "appendFile fs1 ''/srv/data/f.bin'' ''AAA'' = fs2"
    by (simp add: appendFile_def fs1_def fs2_def update_conv')
  have r2: "readFile fs2 ''/tmp/bro-fm-uploads/u1/2.part'' = None"
    by (simp add: readFile_def fs1_def fs2_def update_conv' p2)
  have u: "[1 ..< Suc 2] = [Suc 0, 2]"
    by code_simp
  have as: "assembleParts fs1 (uploadDir exampleEnv ''u1'') ''/srv/data/f.bin'' [1 ..< Suc 2] = Inl fs2"
    unfolding d u by (simp add: c1 c2 r1 ap r2)
  have h: "handleLocalUploadComplete exampleEnv exampleParseMeta ''/srv/data'' exampleUploadFs ''u1'' 2
      = (Error 500 ''Failed to assemble upload.'', fs2)"
    by (rule handleLocalUploadComplete_read_fails [where parseMeta = exampleParseMeta, OF rf pm r j w ov wf as])
  have new: "map_of fs2 ''/srv/data/f.bin'' = Some (File ''AAA'')"
    by (simp add: fs2_def update_conv')
  have s: "handleS3UploadComplete exampleS3 ''u1'' ''users/ann/f.bin'' 2
      = (Error 409 ''Upload incomplete.'', exampleS3)"
    by (rule handleS3UploadComplete_incomplete [where listed = "[(1, \<lparr>partETag = ''e1'', partBody = ''AAA''\<rparr>)]"])
      (simp_all add: listParts_def exampleS3_def)
  show ?thesis by (simp add: h s old new)
qed

section \<open>Assembly of a chunked upload\<close>

lemma handleLocalUploadComplete_ok:
  assumes "readFile fs (posix_join [uploadDir e uploadId, ''meta.json'']) = Some raw"
    and "parseMeta raw = Some meta"
    and "resolveSafePath e (metaPath meta) rootReal = Inr res"
    and "posix_join [fullPath res, metaName meta] = destPath"
    and "isWithinRoot destPath rootReal"
    and "metaOverwrite meta \<or> \<not> pathExists fs destPath"
    and "writeFile fs destPath [] = Some fs1"
    and "assembleParts fs1 (uploadDir e uploadId) destPath [1 ..< Suc totalChunks] = Inr fs2"
  shows "handleLocalUploadComplete e parseMeta rootReal fs uploadId totalChunks
      = (Json (), rmRecursive fs2 (uploadDir e uploadId))"
  using assms by (auto simp: handleLocalUploadComplete_def Let_def)

text \<open>
  Claim C3. Take an upload session in local mode: its scratch directory exists under the
  canonical \<open>UPLOAD_TMP_DIR\<close> with a server-generated id, its descriptor resolves to a
  destination outside the scratch directory that may be written (its parent is a directory,
  it is no directory itself, and it is absent unless overwriting was allowed at init). Let the
  parts arrive in any order \<open>ops\<close>, with any repetitions, such that every part number from 1 to
  \<open>totalChunks\<close> arrives at least once. Then completion succeeds and the destination holds the
  concatenation, in ascending part-number order, of the bytes last sent for each part number.
\<close>

theorem chunked_upload_assembles:
  fixes e :: env and fs :: fsys and uploadId :: string and ops :: "(nat \<times> bytes) list"
  defines "dir \<equiv> uploadDir e uploadId"
  defines "uploaded \<equiv> uploadChunks e fs uploadId ops"
  assumes tmp: "isCanonical (uploadTmpDir e)"
    and uid: "uploadId \<noteq> []" "uploadId \<noteq> ''.''" "uploadId \<noteq> ''..''" "slash \<notin> set uploadId"
    and dirOk: "map_of fs dir = Some Dir"
    and nodir: "\<forall>n \<in> fst ` set ops. map_of fs (chunkPath dir n) \<noteq> Some Dir"
    and meta: "readFile fs (posix_join [dir, ''meta.json'']) = Some raw" "parseMeta raw = Some meta"
    and res: "resolveSafePath e (metaPath meta) rootReal = Inr res"
    and dest: "posix_join [fullPath res, metaName meta] = destPath"
    and within: "isWithinRoot destPath rootReal"
    and ov: "metaOverwrite meta \<or> \<not> pathExists fs destPath"
    and destFile: "map_of fs destPath \<noteq> Some Dir"
    and parent: "map_of fs (posix_dirname destPath) = Some Dir"
    and outside: "\<not> isUnder dir destPath"
    and all: "\<forall>n \<in> {1 .. totalChunks}. n \<in> fst ` set ops"
  shows "fst (handleLocalUploadComplete e parseMeta rootReal uploaded uploadId totalChunks) = Json ()
     \<and> readFile (snd (handleLocalUploadComplete e parseMeta rootReal uploaded uploadId totalChunks))
           destPath
         = Some (concat (map (latestPart ops) [1 ..< Suc totalChunks]))"
proof -
  have c: "isCanonical dir" and ne: "dir \<noteq> ''/''"
    unfolding dir_def using uploadDir_canonical [OF tmp uid] by blast+
  have U: "(\<forall>m. map_of uploaded (chunkPath dir m)
            = (case map_of (rev ops) m of
                 Some b \<Rightarrow> Some (File b)
               | None \<Rightarrow> map_of fs (chunkPath dir m)))
        \<and> (\<forall>p. (\<forall>n \<in> fst ` set ops. p \<noteq> chunkPath dir n) \<longrightarrow> map_of uploaded p = map_of fs p)"
    unfolding uploaded_def dir_def
    by (rule uploadChunks_map_of [OF c [unfolded dir_def] ne [unfolded dir_def]
          dirOk [unfolded dir_def] nodir [unfolded dir_def]])
  have same: "map_of uploaded p = map_of fs p" if "\<forall>n. p \<noteq> chunkPath dir n" for p
    using U that by blast
  have destNoChunk: "destPath \<noteq> chunkPath dir n" for n
    using chunkPath_under(1) [OF c ne, of n] outside by auto
  have metaNoChunk: "posix_join [dir, ''meta.json''] \<noteq> chunkPath dir n" for n
  proof
    assume "posix_join [dir, ''meta.json''] = chunkPath dir n"
    moreover have "posix_join [dir, ''meta.json''] = childPath dir ''meta.json''"
      by (rule posix_join_child [OF c]) simp_all
    ultimately have "childPath dir ''meta.json'' = childPath dir (showNat n @ ''.part'')"
      by (simp add: chunkPath_child [OF c])
    then have "''meta.json'' = showNat n @ ''.part''" by (rule childPath_inj)
    then have "last ''meta.json'' = last (showNat n @ ''.part'')" by simp
    then show False by simp
  qed
  have m1: "readFile uploaded (posix_join [uploadDir e uploadId, ''meta.json'']) = Some raw"
    using meta(1) same [of "posix_join [dir, ''meta.json'']"] metaNoChunk
    by (simp add: readFile_def dir_def)
  have d1: "map_of uploaded destPath = map_of fs destPath"
    using same destNoChunk by blast
  have ov1: "metaOverwrite meta \<or> \<not> pathExists uploaded destPath"
    using ov d1 by (simp add: pathExists_def)
  have "posix_dirname destPath \<noteq> chunkPath dir n" if "n \<in> fst ` set ops" for n
    using parent nodir that by auto
  then have p1: "map_of uploaded (posix_dirname destPath) = Some Dir"
    using U parent by auto
  define fs2 where "fs2 = AList.update destPath (File []) uploaded"
  have w: "writeFile uploaded destPath [] = Some fs2"
    using destFile d1 p1 by (simp add: writeFile_def fs2_def)
  have parts: "map_of fs2 (chunkPath dir n) = Some (File (latestPart ops n))"
    if "n \<in> set [1 ..< Suc totalChunks]" for n
  proof -
    from that all have "n \<in> fst ` set ops" by auto
    then have "n \<in> fst ` set (rev ops)" by simp
    then obtain b where b: "map_of (rev ops) n = Some b"
      using map_of_eq_None_iff [of "rev ops" n] by (cases "map_of (rev ops) n") auto
    then have "map_of uploaded (chunkPath dir n) = Some (File b)"
      using U by simp
    moreover have "latestPart ops n = b" by (simp add: latestPart_def b)
    ultimately show ?thesis
      using destNoChunk [of n] by (simp add: fs2_def update_conv')
  qed
  have "\<exists>fs'. assembleParts fs2 dir destPath [1 ..< Suc totalChunks] = Inr fs'
          \<and> map_of fs' destPath
              = Some (File ([] @ concat (map (latestPart ops) [1 ..< Suc totalChunks])))
          \<and> (\<forall>p. p \<noteq> destPath \<longrightarrow> map_of fs' p = map_of fs2 p)"
  proof (rule assembleParts_concat)
    show "\<forall>n \<in> set [1 ..< Suc totalChunks]. map_of fs2 (chunkPath dir n) = Some (File (latestPart ops n))"
      using parts by blast
    show "\<forall>n \<in> set [1 ..< Suc totalChunks]. destPath \<noteq> chunkPath dir n"
      using destNoChunk by blast
    show "map_of fs2 destPath = Some (File [])"
      by (simp add: fs2_def update_conv')
  qed
  then obtain fs3 where
    a: "assembleParts fs2 (uploadDir e uploadId) destPath [1 ..< Suc totalChunks] = Inr fs3"
    and b: "map_of fs3 destPath = Some (File (concat (map (latestPart ops) [1 ..< Suc totalChunks])))"
    unfolding dir_def by auto
  have h: "handleLocalUploadComplete e parseMeta rootReal uploaded uploadId totalChunks
      = (Json (), rmRecursive fs3 (uploadDir e uploadId))"
    by (rule handleLocalUploadComplete_ok [where parseMeta = parseMeta, OF m1 meta(2) res dest within ov1 w a])
  have "map_of (rmRecursive fs3 dir) destPath = map_of fs3 destPath"
    by (rule map_of_rmRecursive [OF outside])
  then have "readFile (rmRecursive fs3 (uploadDir e uploadId)) destPath
      = Some (concat (map (latestPart ops) [1 ..< Suc totalChunks]))"
    using b by (simp add: readFile_def dir_def)
  then show ?thesis by (simp add: h)
qed

theorem chunked_upload_assembles_witness:
  "fst (handleLocalUploadComplete exampleEnv exampleParseMeta ''/srv/data''
          (uploadChunks exampleEnv exampleInitFs ''u1'' [(2, ''BB''), (1, ''AAA''), (2, ''CC'')])
          ''u1'' 2) = Json ()
   \<and> readFile (snd (handleLocalUploadComplete exampleEnv exampleParseMeta ''/srv/data''
          (uploadChunks exampleEnv exampleInitFs ''u1'' [(2, ''BB''), (1, ''AAA''), (2, ''CC'')])
          ''u1'' 2)) ''/srv/data/f.bin''
       = Some ''AAACC''"
proof -
  let ?ops = "[(2, ''BB''), (1, ''AAA''), (2, ''CC'')] :: (nat \<times> bytes) list"
  let ?meta = "\<lparr>metaPath = ''/'', metaName = ''f.bin'', metaOverwrite = True\<rparr>"
  let ?res = "\<lparr>normalized = ''/'', fullPath = ''/srv/data''\<rparr>"
  have t: "uploadTmpDir exampleEnv = ''/tmp/bro-fm-uploads''"
    by (simp add: exampleEnv_def)
  have "isCanonical ''/tmp/bro-fm-uploads''"
    by code_simp
  then have tmp: "isCanonical (uploadTmpDir exampleEnv)"
    by (simp add: t)
  have d: "uploadDir exampleEnv ''u1'' = ''/tmp/bro-fm-uploads/u1''"
    by code_simp
  have c1: "chunkPath ''/tmp/bro-fm-uploads/u1'' (Suc 0) = ''/tmp/bro-fm-uploads/u1/1.part''"
    by code_simp
  have c2: "chunkPath ''/tmp/bro-fm-uploads/u1'' 2 = ''/tmp/bro-fm-uploads/u1/2.part''"
    by code_simp
  have dirOk: "map_of exampleInitFs (uploadDir exampleEnv ''u1'') = Some Dir"
    unfolding d by (simp add: exampleInitFs_def)
  have s: "fst ` set ?ops = {1, 2}"
    by auto
  have nodir: "\<forall>n \<in> fst ` set ?ops.
      map_of exampleInitFs (chunkPath (uploadDir exampleEnv ''u1'') n) \<noteq> Some Dir"
    unfolding s d by (simp add: c1 c2 exampleInitFs_def)
  have m: "posix_join [''/tmp/bro-fm-uploads/u1'', ''meta.json''] = ''/tmp/bro-fm-uploads/u1/meta.json''"
    by code_simp
  have rf: "readFile exampleInitFs (posix_join [uploadDir exampleEnv ''u1'', ''meta.json'']) = Some ''M''"
    unfolding d m by (simp add: readFile_def exampleInitFs_def)
  have pm: "exampleParseMeta ''M'' = Some ?meta"
    by (simp add: exampleParseMeta_def)
  have r: "resolveSafePath exampleEnv (metaPath ?meta) ''/srv/data'' = Inr ?res"
    by code_simp
  have j: "posix_join [fullPath ?res, metaName ?meta] = ''/srv/data/f.bin''"
    by code_simp
  have w: "isWithinRoot ''/srv/data/f.bin'' ''/srv/data''"
    by code_simp
  have ov: "metaOverwrite ?meta \<or> \<not> pathExists exampleInitFs ''/srv/data/f.bin''"
    by simp
  have df: "map_of exampleInitFs ''/srv/data/f.bin'' \<noteq> Some Dir"
    by (simp add: exampleInitFs_def)
  have dn: "posix_dirname ''/srv/data/f.bin'' = ''/srv/data''"
    by code_simp
  have par: "map_of exampleInitFs (posix_dirname ''/srv/data/f.bin'') = Some Dir"
    unfolding dn by (simp add: exampleInitFs_def)
  have out: "\<not> isUnder (uploadDir exampleEnv ''u1'') ''/srv/data/f.bin''"
    unfolding d by (simp add: isUnder_def)
  have all: "\<forall>n \<in> {1 .. 2}. n \<in> fst ` set ?ops"
    unfolding s by auto
  have cc: "concat (map (latestPart ?ops) [1 ..< Suc 2]) = ''AAACC''"
    by code_simp
  have u: "uploadId \<noteq> []" "uploadId \<noteq> ''.''" "uploadId \<noteq> ''..''" "slash \<notin> set uploadId"
    if "uploadId = ''u1''" for uploadId
    using that by simp_all
  note th = chunked_upload_assembles [where parseMeta = exampleParseMeta and e = exampleEnv
        and uploadId = "''u1''" and fs = exampleInitFs and ops = ?ops and totalChunks = 2
        and rootReal = "''/srv/data''",
        OF tmp u [OF refl] dirOk nodir rf pm r j w ov df par out all]
  show ?thesis using th unfolding cc .
qed

section \<open>Creating share links\<close>



section \<open>Moving an entry into itself\<close>

text \<open>
  Claim C8 fails on the code in S3 mode. \<open>handleS3Move\<close> tests whether the normalized
  destination begins with the normalized source followed by \<open>/\<close>; the normalized source keeps a
  trailing slash of the request, so for the source \<open>/a/y/\<close> the test looks for \<open>/a/y//\<close> and
  misses the destination \<open>/a/y/x\<close>. The folder is then moved into itself: its object is copied
  to a key under the destination prefix and deleted, and the answer is a success. The same
  request with the source written \<open>/a/y\<close> is refused and leaves the store as it was.
\<close>

theorem s3_move_into_itself_carried_out:
  "normalizeRequestPath (Some ''/a/y/'') = ''/a/y/''
   \<and> getS3PathInfo exampleMoveS3 ''users/ann/'' ''/a/y/'' = TDir
   \<and> toS3Prefix ''users/ann/'' ''/a/y/'' = ''users/ann/a/y/''
   \<and> prefix (toS3Prefix ''users/ann/'' ''/a/y/'') (toS3Prefix ''users/ann/'' ''/a/y/x'')
   \<and> handleS3Move ReadWrite ''users/ann/'' exampleMoveS3 ''/a/y/'' ''/a/y/x''
       = (Json (), \<lparr>objects = [(''users/ann/a'', ''file''), (''users/ann/a/y/x/z'', ''zz'')],
                     uploads = []\<rparr>)
   \<and> handleS3Move ReadWrite ''users/ann/'' exampleMoveS3 ''/a/y'' ''/a/y/x''
       = (Error 400 ''Cannot move a folder into itself.'', exampleMoveS3)"
proof -
  have 1: "normalizeRequestPath (Some ''/a/y/'') = ''/a/y/''"
    by code_simp
  have 2: "getS3PathInfo exampleMoveS3 ''users/ann/'' ''/a/y/'' = TDir"
    by code_simp
  have 3: "toS3Prefix ''users/ann/'' ''/a/y/'' = ''users/ann/a/y/''"
    by code_simp
  have 4: "prefix (toS3Prefix ''users/ann/'' ''/a/y/'') (toS3Prefix ''users/ann/'' ''/a/y/x'')"
    by code_simp
  have 5: "handleS3Move ReadWrite ''users/ann/'' exampleMoveS3 ''/a/y/'' ''/a/y/x''
       = (Json (), \<lparr>objects = [(''users/ann/a'', ''file''), (''users/ann/a/y/x/z'', ''zz'')],
                     uploads = []\<rparr>)"
    by code_simp
  have 6: "handleS3Move ReadWrite ''users/ann/'' exampleMoveS3 ''/a/y'' ''/a/y/x''
       = (Error 400 ''Cannot move a folder into itself.'', exampleMoveS3)"
    by code_simp
  show ?thesis
    by (rule conjI [OF 1 conjI [OF 2 conjI [OF 3 conjI [OF 4 conjI [OF 5 6]]]]])
qed

text \<open>
  What the two checks do establish. Local mode: whenever source and destination resolve and the
  resolved destination begins with the resolved source followed by the separator, the move
  fails and the file system is left as it was. S3 mode: whenever the normalized destination
  begins with the normalized source followed by \<open>/\<close> and the source is not an object, the move
  fails and the store is left as it was.
\<close>

lemma apiMove_nested:
  assumes fr: "resolveSafePath e bodyFrom rootReal = Inr fr"
    and d: "resolveDestinationPath e bodyTo rootReal = Inr (Some d)"
    and nested: "prefix (fullPath fr @ ''/'') (fullPath d)"
  shows "isErrorResponse (fst (apiMove e userRole rootReal fs bodyFrom bodyTo))"
    and "snd (apiMove e userRole rootReal fs bodyFrom bodyTo) = fs"
    and "canWrite userRole \<Longrightarrow> normalized fr \<noteq> ''/'' \<Longrightarrow> isWithinRoot (fullPath d) rootReal
         \<Longrightarrow> \<not> pathExists fs (fullPath d)
         \<Longrightarrow> fst (apiMove e userRole rootReal fs bodyFrom bodyTo)
             = Error 400 ''Cannot move a folder into itself.''"
proof -
  have ne: "fullPath d \<noteq> fullPath fr"
    using nested by (auto simp: prefix_def)
  show "isErrorResponse (fst (apiMove e userRole rootReal fs bodyFrom bodyTo))"
    using nested by (simp add: apiMove_def fr d isErrorResponse_def)
  show "snd (apiMove e userRole rootReal fs bodyFrom bodyTo) = fs"
    using nested by (simp add: apiMove_def fr d)
  show "fst (apiMove e userRole rootReal fs bodyFrom bodyTo)
             = Error 400 ''Cannot move a folder into itself.''"
    if "canWrite userRole" "normalized fr \<noteq> ''/''" "isWithinRoot (fullPath d) rootReal"
      "\<not> pathExists fs (fullPath d)"
    using that nested ne by (simp add: apiMove_def fr d)
qed

lemma handleS3Move_nested:
  fixes bodyFrom bodyTo :: string
  defines "nf \<equiv> normalizeRequestPath (Some bodyFrom)"
  defines "nt \<equiv> normalizeRequestPath (Some bodyTo)"
  assumes nested: "prefix (nf @ ''/'') nt"
    and nofile: "getS3PathInfo st rootPfx nf \<noteq> TFile"
  shows "isErrorResponse (fst (handleS3Move userRole rootPfx st bodyFrom bodyTo))"
    and "snd (handleS3Move userRole rootPfx st bodyFrom bodyTo) = st"
    and "canWrite userRole \<Longrightarrow> resolveSafeS3Path bodyFrom rootPfx = Inr fr \<Longrightarrow> nf \<noteq> ''/''
         \<Longrightarrow> resolveDestinationPathS3 bodyTo = Some dn
         \<Longrightarrow> getS3PathInfo st rootPfx (posix_dirname dn) = TDir
         \<Longrightarrow> \<not> s3PathExists st rootPfx dn
         \<Longrightarrow> getS3PathInfo st rootPfx nf = TDir
         \<Longrightarrow> fst (handleS3Move userRole rootPfx st bodyFrom bodyTo)
             = Error 400 ''Cannot move a folder into itself.''"
proof -
  have ne: "nt \<noteq> nf" using nested by (auto simp: prefix_def)
  have rf: "resolveSafeS3Path bodyFrom rootPfx = Inr r \<Longrightarrow> s3normalized r = nf" for r
    by (auto simp: resolveSafeS3Path_def nf_def Let_def split: if_splits)
  have rd: "resolveDestinationPathS3 bodyTo = Some x \<Longrightarrow> x = nt" for x
    by (auto simp: resolveDestinationPathS3_def nt_def Let_def split: if_splits option.splits)
  have info: "getS3PathInfo st rootPfx nf = TDir \<or> getS3PathInfo st rootPfx nf = TNone"
    using nofile by (cases "getS3PathInfo st rootPfx nf") auto
  show "isErrorResponse (fst (handleS3Move userRole rootPfx st bodyFrom bodyTo))"
    using nested ne info
    by (auto simp: handleS3Move_def isErrorResponse_def Let_def dest!: rf rd split: sum.splits option.splits)
  show "snd (handleS3Move userRole rootPfx st bodyFrom bodyTo) = st"
    using nested ne info
    by (auto simp: handleS3Move_def Let_def dest!: rf rd split: sum.splits option.splits)
  show "fst (handleS3Move userRole rootPfx st bodyFrom bodyTo)
             = Error 400 ''Cannot move a folder into itself.''"
    if "canWrite userRole" "resolveSafeS3Path bodyFrom rootPfx = Inr fr" "nf \<noteq> ''/''"
      "resolveDestinationPathS3 bodyTo = Some dn" "getS3PathInfo st rootPfx (posix_dirname dn) = TDir"
      "\<not> s3PathExists st rootPfx dn" "getS3PathInfo st rootPfx nf = TDir"
  proof -
    have 1: "s3normalized fr = nf" by (rule rf [OF that(2)])
    have 2: "dn = nt" by (rule rd [OF that(4)])
    show ?thesis
      using that(1,3,5,6,7) nested ne unfolding 2
      by (simp add: handleS3Move_def that(2) that(4) [unfolded 2] 1 Let_def)
  qed
qed

section \<open>Order of a directory listing\<close>

lemma compareEntries_le_iff:
  "compareEntries ckey a b \<le> 0 \<longleftrightarrow> entryKey ckey a \<le> entryKey ckey b"
  by (cases "entryType a"; cases "entryType b")
    (auto simp: compareEntries_def localeCompareBase_def entryKey_def typeRank_def less_eq_prod_def)

lemma insertBy_insort_key:
  "insertBy (compareEntries ckey) x ys = insort_key (entryKey ckey) x ys"
  by (induction ys) (simp_all add: compareEntries_le_iff)

lemma sortEntries_sort_key: "sortEntries ckey es = sort_key (entryKey ckey) es"
  by (induction es) (simp_all add: sortEntries_def arraySort_def insertBy_insort_key)

lemma entryKey_le:
  assumes "entryKey ckey a \<le> entryKey ckey b"
  shows "(entryType a = DirT \<or> entryType b = FileT)
       \<and> (entryType a = entryType b \<longrightarrow> ckey (entryName a) \<le> ckey (entryName b))"
  using assms
  by (cases "entryType a"; cases "entryType b")
    (auto simp: entryKey_def typeRank_def less_eq_prod_def)

lemma entryKey_eq_iff:
  "entryKey ckey e = (typeRank t, k) \<longleftrightarrow> entryType e = t \<and> ckey (entryName e) = k"
  by (cases "entryType e"; cases t) (auto simp: entryKey_def typeRank_def)

text \<open>
  Claim C9 as stated fails: names that compare equal are not ordered by their bytes. The sort
  is stable and the comparator answers 0 for them, so they keep the order in which the listing
  delivered them: \<open>a\<close> stays before \<open>A\<close>, although \<open>A\<close> is the smaller byte string.
\<close>

theorem listing_ties_counterexample:
  "sortEntries asciiFoldKey [fileEntry ''a'', fileEntry ''A''] = [fileEntry ''a'', fileEntry ''A'']
   \<and> asciiFoldKey ''a'' = asciiFoldKey ''A''
   \<and> ''A'' < ''a''"
proof -
  have 1: "sortEntries asciiFoldKey [fileEntry ''a'', fileEntry ''A''] = [fileEntry ''a'', fileEntry ''A'']"
    by code_simp
  have 2: "asciiFoldKey ''a'' = asciiFoldKey ''A''"
    by code_simp
  have 3: "''A'' < ''a''"
    by code_simp
  from 1 2 3 show ?thesis by blast
qed

text \<open>
  Claim C9, amended. The listing is a rearrangement of its entries in which every directory
  comes before every file and the entries of one type are in the order of the collation keys
  of their names (case ignored); entries of one type whose names have the same key keep the
  order in which the listing delivered them. The same comparator is used in local and in S3
  mode.
\<close>

theorem listing_sorted_stable:
  "mset (sortEntries ckey es) = mset es
   \<and> sorted_wrt (\<lambda>a b. (entryType a = DirT \<or> entryType b = FileT)
                      \<and> (entryType a = entryType b \<longrightarrow> ckey (entryName a) \<le> ckey (entryName b)))
        (sortEntries ckey es)
   \<and> filter (\<lambda>e. entryType e = t \<and> ckey (entryName e) = k) (sortEntries ckey es)
       = filter (\<lambda>e. entryType e = t \<and> ckey (entryName e) = k) es"
proof -
  have s: "sortEntries ckey es = sort_key (entryKey ckey) es" by (rule sortEntries_sort_key)
  have 1: "mset (sortEntries ckey es) = mset es" by (simp add: s)
  have "sorted (map (entryKey ckey) (sort_key (entryKey ckey) es))" by simp
  then have "sorted_wrt (\<lambda>a b. entryKey ckey a \<le> entryKey ckey b) (sortEntries ckey es)"
    by (simp add: s sorted_map)
  then have 2: "sorted_wrt (\<lambda>a b. (entryType a = DirT \<or> entryType b = FileT)
                      \<and> (entryType a = entryType b \<longrightarrow> ckey (entryName a) \<le> ckey (entryName b)))
        (sortEntries ckey es)"
    by (rule sorted_wrt_mono_rel [rotated]) (rule entryKey_le)
  have "filter (\<lambda>e. entryKey ckey e = (typeRank t, k)) (sort_key (entryKey ckey) es)
      = filter (\<lambda>e. entryKey ckey e = (typeRank t, k)) es"
    by (rule sort_key_stable)
  then have 3: "filter (\<lambda>e. entryType e = t \<and> ckey (entryName e) = k) (sortEntries ckey es)
       = filter (\<lambda>e. entryType e = t \<and> ckey (entryName e) = k) es"
    by (simp add: s entryKey_eq_iff)
  show ?thesis by (rule conjI [OF 1 conjI [OF 2 3]])
qed

theorem listing_sorted_stable_witness:
  "sortEntries asciiFoldKey [fileEntry ''b'', dirEntry ''z'', fileEntry ''a'', fileEntry ''A'']
     = [dirEntry ''z'', fileEntry ''a'', fileEntry ''A'', fileEntry ''b'']
   \<and> mset (sortEntries asciiFoldKey [fileEntry ''b'', dirEntry ''z'', fileEntry ''a'', fileEntry ''A''])
     = mset [fileEntry ''b'', dirEntry ''z'', fileEntry ''a'', fileEntry ''A'']
   \<and> filter (\<lambda>e. entryType e = FileT \<and> asciiFoldKey (entryName e) = ''a'')
        (sortEntries asciiFoldKey [fileEntry ''b'', dirEntry ''z'', fileEntry ''a'', fileEntry ''A''])
     = [fileEntry ''a'', fileEntry ''A'']"
proof -
  let ?es = "[fileEntry ''b'', dirEntry ''z'', fileEntry ''a'', fileEntry ''A'']"
  note th = listing_sorted_stable [of asciiFoldKey ?es FileT "''a''"]
  have 1: "sortEntries asciiFoldKey ?es = [dirEntry ''z'', fileEntry ''a'', fileEntry ''A'', fileEntry ''b'']"
    by code_simp
  have 2: "mset (sortEntries asciiFoldKey ?es) = mset ?es"
    using th by (rule conjunct1)
  have f: "filter (\<lambda>e. entryType e = FileT \<and> asciiFoldKey (entryName e) = ''a'') ?es
      = [fileEntry ''a'', fileEntry ''A'']"
    by code_simp
  have 3: "filter (\<lambda>e. entryType e = FileT \<and> asciiFoldKey (entryName e) = ''a'')
        (sortEntries asciiFoldKey ?es) = [fileEntry ''a'', fileEntry ''A'']"
    using th f by simp
  show ?thesis by (rule conjI [OF 1 conjI [OF 2 3]])
qed

end
